theory Spec2Isabelle
  imports Complex_Main "HOL-Library.Sublist"
begin

section \<open>JavaScript numbers\<close>

text \<open>
  The numerical core of the playground (\<^verbatim>\<open>utils/math.ts\<close>, \<^verbatim>\<open>utils/data.ts\<close>) computes
  with JavaScript numbers. A number is modelled as an exact real, or one of the three
  special values \<^verbatim>\<open>Infinity\<close>, \<^verbatim>\<open>-Infinity\<close> and \<^verbatim>\<open>NaN\<close>. The special values follow
  IEEE 754 as ECMAScript prescribes it, and the negative zero is identified with the
  positive one: a division by zero and a power of zero take the zero as \<^verbatim>\<open>+0\<close>.
  The operations \<open>js_add\<close>, \<open>js_mul\<close>, \<open>js_div\<close> on finite numbers are exact; they serve
  the properties that are stated in exact arithmetic or depend on no rounding. The
  sampling loop of \<^verbatim>\<open>generateFunctionPoints\<close>, whose number of steps depends on the
  rounding, adds with \<open>js_add_binary64\<close>, the exact sum rounded to binary64.
\<close>

datatype number = Fin real | PInf | NInf | NaN

fun js_neg :: "number \<Rightarrow> number" where
  "js_neg (Fin a) = Fin (- a)"
| "js_neg PInf = NInf"
| "js_neg NInf = PInf"
| "js_neg NaN = NaN"

fun js_add :: "number \<Rightarrow> number \<Rightarrow> number" where
  "js_add NaN _ = NaN"
| "js_add _ NaN = NaN"
| "js_add (Fin a) (Fin b) = Fin (a + b)"
| "js_add PInf NInf = NaN"
| "js_add NInf PInf = NaN"
| "js_add PInf _ = PInf"
| "js_add _ PInf = PInf"
| "js_add NInf _ = NInf"
| "js_add _ NInf = NInf"

definition js_sub :: "number \<Rightarrow> number \<Rightarrow> number" where
  "js_sub a b = js_add a (js_neg b)"

text \<open>The sign of an infinite product or quotient: \<open>pos\<close> tells whether it is positive.\<close>

definition signed_inf :: "bool \<Rightarrow> number" where
  "signed_inf pos = (if pos then PInf else NInf)"

fun js_mul :: "number \<Rightarrow> number \<Rightarrow> number" where
  "js_mul NaN _ = NaN"
| "js_mul _ NaN = NaN"
| "js_mul (Fin a) (Fin b) = Fin (a * b)"
| "js_mul (Fin a) PInf = (if a = 0 then NaN else signed_inf (0 < a))"
| "js_mul (Fin a) NInf = (if a = 0 then NaN else signed_inf (a < 0))"
| "js_mul PInf (Fin b) = (if b = 0 then NaN else signed_inf (0 < b))"
| "js_mul NInf (Fin b) = (if b = 0 then NaN else signed_inf (b < 0))"
| "js_mul PInf PInf = PInf"
| "js_mul PInf NInf = NInf"
| "js_mul NInf PInf = NInf"
| "js_mul NInf NInf = PInf"

fun js_div :: "number \<Rightarrow> number \<Rightarrow> number" where
  "js_div NaN _ = NaN"
| "js_div _ NaN = NaN"
| "js_div (Fin a) (Fin b) =
     (if b = 0 then (if a = 0 then NaN else signed_inf (0 < a)) else Fin (a / b))"
| "js_div (Fin a) PInf = Fin 0"
| "js_div (Fin a) NInf = Fin 0"
| "js_div PInf (Fin b) = signed_inf (0 \<le> b)"
| "js_div NInf (Fin b) = signed_inf (b < 0)"
| "js_div PInf PInf = NaN"
| "js_div PInf NInf = NaN"
| "js_div NInf PInf = NaN"
| "js_div NInf NInf = NaN"

text \<open>Comparisons: every comparison with \<^verbatim>\<open>NaN\<close> is false, also \<^verbatim>\<open>NaN === NaN\<close>.\<close>

fun js_lt :: "number \<Rightarrow> number \<Rightarrow> bool" where
  "js_lt NaN _ = False"
| "js_lt _ NaN = False"
| "js_lt (Fin a) (Fin b) = (a < b)"
| "js_lt _ NInf = False"
| "js_lt PInf _ = False"
| "js_lt NInf _ = True"
| "js_lt _ PInf = True"

fun js_le :: "number \<Rightarrow> number \<Rightarrow> bool" where
  "js_le NaN _ = False"
| "js_le _ NaN = False"
| "js_le (Fin a) (Fin b) = (a \<le> b)"
| "js_le NInf _ = True"
| "js_le _ PInf = True"
| "js_le _ NInf = False"
| "js_le PInf _ = False"

definition js_gt :: "number \<Rightarrow> number \<Rightarrow> bool" where
  "js_gt a b = js_lt b a"

definition js_ge :: "number \<Rightarrow> number \<Rightarrow> bool" where
  "js_ge a b = js_le b a"

definition js_eq :: "number \<Rightarrow> number \<Rightarrow> bool" where
  "js_eq a b = (a \<noteq> NaN \<and> a = b)"

fun isFinite :: "number \<Rightarrow> bool" where
  "isFinite (Fin a) = True"
| "isFinite _ = False"

fun isNaN :: "number \<Rightarrow> bool" where
  "isNaN NaN = True"
| "isNaN _ = False"

subsection \<open>The \<^verbatim>\<open>Math\<close> object\<close>

definition is_integral :: "real \<Rightarrow> bool" where
  "is_integral e = (e = of_int \<lfloor>e\<rfloor>)"

definition odd_integral :: "real \<Rightarrow> bool" where
  "odd_integral e = (is_integral e \<and> odd \<lfloor>e\<rfloor>)"

text \<open>The power of a finite non-zero base to a finite non-zero exponent.\<close>

definition finite_pow :: "real \<Rightarrow> real \<Rightarrow> real" where
  "finite_pow x e = (if is_integral e then x powi \<lfloor>e\<rfloor> else x powr e)"

text \<open>
  \<^verbatim>\<open>Math.pow\<close>, case by case as \<^verbatim>\<open>Number::exponentiate\<close> of ECMAScript lists them: the
  exponent \<^verbatim>\<open>NaN\<close>, the exponent zero, the base \<^verbatim>\<open>NaN\<close>, an infinite base, a zero base, an
  infinite exponent, a negative base with a fractional exponent, the finite power.
\<close>

fun Math_pow :: "number \<Rightarrow> number \<Rightarrow> number" where
  "Math_pow b NaN = NaN"
| "Math_pow b (Fin e) =
     (if e = 0 then Fin 1
      else case b of
        NaN \<Rightarrow> NaN
      | PInf \<Rightarrow> (if 0 < e then PInf else Fin 0)
      | NInf \<Rightarrow> (if 0 < e then (if odd_integral e then NInf else PInf) else Fin 0)
      | Fin x \<Rightarrow>
          (if x = 0 then (if 0 < e then Fin 0 else PInf)
           else if x < 0 \<and> \<not> is_integral e then NaN
           else Fin (finite_pow x e)))"
| "Math_pow b PInf =
     (case b of
        NaN \<Rightarrow> NaN
      | PInf \<Rightarrow> PInf
      | NInf \<Rightarrow> PInf
      | Fin x \<Rightarrow> (if 1 < \<bar>x\<bar> then PInf else if \<bar>x\<bar> = 1 then NaN else Fin 0))"
| "Math_pow b NInf =
     (case b of
        NaN \<Rightarrow> NaN
      | PInf \<Rightarrow> Fin 0
      | NInf \<Rightarrow> Fin 0
      | Fin x \<Rightarrow> (if 1 < \<bar>x\<bar> then Fin 0 else if \<bar>x\<bar> = 1 then NaN else PInf))"

fun Math_exp :: "number \<Rightarrow> number" where
  "Math_exp (Fin a) = Fin (exp a)"
| "Math_exp PInf = PInf"
| "Math_exp NInf = Fin 0"
| "Math_exp NaN = NaN"

fun Math_sin :: "number \<Rightarrow> number" where
  "Math_sin (Fin a) = Fin (sin a)"
| "Math_sin _ = NaN"

fun Math_cos :: "number \<Rightarrow> number" where
  "Math_cos (Fin a) = Fin (cos a)"
| "Math_cos _ = NaN"

fun Math_floor :: "number \<Rightarrow> number" where
  "Math_floor (Fin a) = Fin (of_int \<lfloor>a\<rfloor>)"
| "Math_floor x = x"

text \<open>\<^verbatim>\<open>Math.min(a, b)\<close> and \<^verbatim>\<open>Math.max(a, b)\<close>: \<^verbatim>\<open>NaN\<close> as soon as an argument is.\<close>

definition Math_min2 :: "number \<Rightarrow> number \<Rightarrow> number" where
  "Math_min2 a b = (if isNaN a \<or> isNaN b then NaN else if js_le a b then a else b)"

definition Math_max2 :: "number \<Rightarrow> number \<Rightarrow> number" where
  "Math_max2 a b = (if isNaN a \<or> isNaN b then NaN else if js_le a b then b else a)"

text \<open>
  \<^verbatim>\<open>Math.min(...data)\<close> and \<^verbatim>\<open>Math.max(...data)\<close> over a spread array; of no argument they
  are \<^verbatim>\<open>Infinity\<close> and \<^verbatim>\<open>-Infinity\<close>.
\<close>

definition Math_min :: "number list \<Rightarrow> number" where
  "Math_min xs = foldl Math_min2 PInf xs"

definition Math_max :: "number list \<Rightarrow> number" where
  "Math_max xs = foldl Math_max2 NInf xs"

definition Math_PI :: number where
  "Math_PI = Fin pi"

subsection \<open>Rounding to binary64\<close>

text \<open>
  The nearest integer, a tie going to the even one.
\<close>

definition round_half_even :: "real \<Rightarrow> int" where
  "round_half_even m =
     (let f = \<lfloor>m\<rfloor>; d = m - of_int f
      in if d < 1 / 2 then f else if 1 / 2 < d then f + 1 else if even f then f else f + 1)"

text \<open>
  The binary64 number nearest to a real (round to nearest, ties to even). A number that
  is not zero lies in a binade \<open>2^e \<le> |r| < 2^(e + 1)\<close>; its significand has 53 bits, so
  the numbers of the binade are the multiples of \<open>2^(e - 52)\<close>, and below \<open>2^(-1022)\<close>
  (the subnormal numbers) the multiples of \<open>2^(-1074)\<close>. A result of magnitude \<open>2^1024\<close>
  or more overflows to an infinity.
\<close>

definition binary64 :: "real \<Rightarrow> number" where
  "binary64 r =
     (if r = 0 then Fin 0
      else let q = max \<lfloor>log 2 \<bar>r\<bar>\<rfloor> (- 1022) - 52;
               v = of_int (round_half_even (r / 2 powi q)) * 2 powi q
           in if 2 ^ 1024 \<le> \<bar>v\<bar> then signed_inf (0 < r) else Fin v)"

text \<open>
  The addition of two binary64 numbers as the machine does it: the exact sum, rounded.
  The loop of \<^verbatim>\<open>generateFunctionPoints\<close> accumulates \<open>x\<close> with it, so that its values,
  their number and its termination are those of the code.
\<close>

definition js_add_binary64 :: "number \<Rightarrow> number \<Rightarrow> number" where
  "js_add_binary64 a b = (case js_add a b of Fin r \<Rightarrow> binary64 r | s \<Rightarrow> s)"

section \<open>Distribution functions (\<^verbatim>\<open>utils/math.ts\<close>)\<close>

subsection \<open>\<^verbatim>\<open>factorial\<close> and \<^verbatim>\<open>poissonPMF\<close>\<close>

text \<open>
  The loop \<^verbatim>\<open>for (let i = 2; i <= n; i++) result *= i\<close>. Its bound is a number, and the
  loop does not end when the bound is \<^verbatim>\<open>Infinity\<close>: not returning is the value \<open>None\<close>.
\<close>

partial_function (option) factorial_loop :: "number \<Rightarrow> number \<Rightarrow> number \<Rightarrow> number option" where
  "factorial_loop n i result =
     (if js_le i n then factorial_loop n (js_add i (Fin 1)) (js_mul result i)
      else Some result)"

definition factorial :: "number \<Rightarrow> number option" where
  "factorial n =
     (if js_lt n (Fin 0) then Some NaN
      else if js_eq n (Fin 0) \<or> js_eq n (Fin 1) then Some (Fin 1)
      else factorial_loop n (Fin 2) (Fin 1))"

definition poissonPMF :: "number \<Rightarrow> number \<Rightarrow> number option" where
  "poissonPMF k lambda =
     (let numerator = js_mul (Math_pow lambda k) (Math_exp (js_neg lambda))
      in map_option (\<lambda>fk. js_div numerator fk) (factorial k))"

subsection \<open>\<^verbatim>\<open>binomialPMF\<close>\<close>

text \<open>
  The inner helper \<^verbatim>\<open>binomialCoefficient(n, k)\<close>: two guards, then the loop
  \<^verbatim>\<open>for (let i = 1; i <= k; i++) result = result * (n - i + 1) / i\<close>.
\<close>

partial_function (option) binomialCoefficient_loop ::
  "number \<Rightarrow> number \<Rightarrow> number \<Rightarrow> number \<Rightarrow> number option" where
  "binomialCoefficient_loop n k i result =
     (if js_le i k
      then binomialCoefficient_loop n k (js_add i (Fin 1))
             (js_div (js_mul result (js_add (js_sub n i) (Fin 1))) i)
      else Some result)"

definition binomialCoefficient :: "number \<Rightarrow> number \<Rightarrow> number option" where
  "binomialCoefficient n k =
     (if js_lt k (Fin 0) \<or> js_gt k n then Some (Fin 0)
      else if js_eq k (Fin 0) \<or> js_eq k n then Some (Fin 1)
      else binomialCoefficient_loop n k (Fin 1) (Fin 1))"

definition binomialPMF :: "number \<Rightarrow> number \<Rightarrow> number \<Rightarrow> number option" where
  "binomialPMF k n p =
     map_option
       (\<lambda>c. js_mul (js_mul c (Math_pow p k)) (Math_pow (js_sub (Fin 1) p) (js_sub n k)))
       (binomialCoefficient n k)"

section \<open>Expression evaluator (\<^verbatim>\<open>parseFunction\<close>)\<close>

text \<open>The class \<^verbatim>\<open>\w\<close> of a regular expression without flags: letters, digits, underscore.\<close>

definition is_word_char :: "char \<Rightarrow> bool" where
  "is_word_char c =
     (c \<in> set ''abcdefghijklmnopqrstuvwxyzABCDEFGHIJKLMNOPQRSTUVWXYZ0123456789_'')"

text \<open>
  \<^verbatim>\<open>s.replace(/\bPAT/g, REP)\<close> for a literal \<open>pat\<close> that begins with a word character
  (\<^verbatim>\<open>ln\(\<close>, \<^verbatim>\<open>log\(\<close>) and a replacement \<open>rep\<close> without \<^verbatim>\<open>$\<close>. The scan goes from left
  to right; \<^verbatim>\<open>\b\<close> before a word character holds at the start of the string and after a
  character that is not a word character, which \<open>w\<close> records (\<open>w\<close>: the character
  before the current position is a word character). After a match the scan goes on
  behind the match.
\<close>

function replace_boundary :: "string \<Rightarrow> string \<Rightarrow> bool \<Rightarrow> string \<Rightarrow> string" where
  "replace_boundary pat rep w [] = []"
| "replace_boundary pat rep w (c # cs) =
     (if \<not> w \<and> pat \<noteq> [] \<and> prefix pat (c # cs)
      then rep @ replace_boundary pat rep (is_word_char (last pat)) (drop (length pat) (c # cs))
      else c # replace_boundary pat rep (is_word_char c) cs)"
  by pat_completeness auto
termination
  by (relation "measure (\<lambda>(pat, rep, w, s). length s)") (auto simp: neq_Nil_conv)

text \<open>
  The two chained replacements of \<^verbatim>\<open>parseFunction\<close>: the second one runs on the result
  of the first.
\<close>

definition normalized :: "string \<Rightarrow> string" where
  "normalized expression =
     replace_boundary ''log('' ''log10('' False
       (replace_boundary ''ln('' ''log('' False expression)"

record MathFunction =
  expression :: string
  evaluate :: "number \<Rightarrow> number"
  derivative :: "(number \<Rightarrow> number) option"

text \<open>The scope \<^verbatim>\<open>{ x, a: 1, b: 0, c: 0, d: 0, e: 0 }\<close> handed to the compiled node.\<close>

definition scope :: "number \<Rightarrow> (string \<rightharpoonup> number)" where
  "scope x = map_of [(''x'', x), (''a'', Fin 1), (''b'', Fin 0), (''c'', Fin 0),
                     (''d'', Fin 0), (''e'', Fin 0)]"

text \<open>
  \<^verbatim>\<open>compile\<close> is the function of the mathjs library, which is not part of the repository:
  it is a parameter, together with the \<^verbatim>\<open>evaluate\<close> method of the node it returns. Both
  may throw (\<open>Inl\<close>). \<^verbatim>\<open>console.error\<close> writes to the console and changes no value.
\<close>

definition parseFunction ::
  "(string \<Rightarrow> 'e + 'node) \<Rightarrow> ('node \<Rightarrow> (string \<rightharpoonup> number) \<Rightarrow> 'e + number) \<Rightarrow> string
     \<Rightarrow> MathFunction" where
  "parseFunction compile node_evaluate expr =
     (case compile (normalized expr) of
        Inr node \<Rightarrow>
          \<lparr>expression = expr,
           evaluate = (\<lambda>x. case node_evaluate node (scope x) of Inr v \<Rightarrow> v | Inl err \<Rightarrow> NaN),
           derivative = None\<rparr>
      | Inl err \<Rightarrow> \<lparr>expression = ''x'', evaluate = (\<lambda>x. x), derivative = None\<rparr>)"

section \<open>Calculus utilities (\<^verbatim>\<open>generateFunctionPoints\<close>)\<close>

record Point =
  pt_x :: number
  pt_y :: number

record FunctionRange =
  range_min :: number
  range_max :: number
  range_step :: number

text \<open>
  The loop \<^verbatim>\<open>for (let x = range.min; x <= range.max; x += range.step)\<close>. The function
  \<open>f\<close> may throw (\<open>Inl\<close>), which the loop body catches. The addition \<^verbatim>\<open>x += range.step\<close>
  rounds to binary64. The loop does not end when \<open>x\<close> never exceeds \<^verbatim>\<open>range.max\<close>: for a
  step that is not positive, or one so small against \<open>x\<close> that the sum rounds back to \<open>x\<close>.
\<close>

partial_function (option) generateFunctionPoints_loop ::
  "(number \<Rightarrow> 'e + number) \<Rightarrow> FunctionRange \<Rightarrow> number \<Rightarrow> Point list \<Rightarrow> Point list option" where
  "generateFunctionPoints_loop f rng x points =
     (if js_le x (range_max rng)
      then generateFunctionPoints_loop f rng (js_add_binary64 x (range_step rng))
             (case f x of
                Inr y \<Rightarrow> if isFinite y \<and> \<not> isNaN y then points @ [\<lparr>pt_x = x, pt_y = y\<rparr>]
                         else points
              | Inl err \<Rightarrow> points)
      else Some points)"

definition generateFunctionPoints ::
  "(number \<Rightarrow> 'e + number) \<Rightarrow> FunctionRange \<Rightarrow> Point list option" where
  "generateFunctionPoints f rng = generateFunctionPoints_loop f rng (range_min rng) []"

section \<open>Discrete Fourier transform (\<^verbatim>\<open>dft\<close>)\<close>

record ComplexNumber =
  real_part :: number
  imag_part :: number

text \<open>The inner loop over \<open>n\<close> for one bin \<open>k\<close>, on the pair \<^verbatim>\<open>(real, imag)\<close>.\<close>

definition dft_step :: "number list \<Rightarrow> nat \<Rightarrow> number \<times> number \<Rightarrow> nat \<Rightarrow> number \<times> number" where
  "dft_step signal k acc n =
     (let N = Fin (real (length signal));
          angle = js_div (js_mul (js_mul (js_mul (Fin 2) Math_PI) (Fin (real k))) (Fin (real n))) N
      in (js_add (fst acc) (js_mul (signal ! n) (Math_cos angle)),
          js_sub (snd acc) (js_mul (signal ! n) (Math_sin angle))))"

definition dft_bin :: "number list \<Rightarrow> nat \<Rightarrow> ComplexNumber" where
  "dft_bin signal k =
     (let acc = foldl (dft_step signal k) (Fin 0, Fin 0) [0..<length signal]
      in \<lparr>real_part = fst acc, imag_part = snd acc\<rparr>)"

definition dft :: "number list \<Rightarrow> ComplexNumber list" where
  "dft signal = map (dft_bin signal) [0..<length signal]"

section \<open>Histogram and harmonic signals (\<^verbatim>\<open>utils/data.ts\<close>)\<close>

datatype error = RangeError

text \<open>
  \<^verbatim>\<open>new Array(len)\<close> throws a \<^verbatim>\<open>RangeError\<close> unless \<open>len\<close> is an integer from 0 to
  \<open>2^32 - 1\<close>.
\<close>

fun array_length :: "number \<Rightarrow> nat option" where
  "array_length (Fin r) =
     (if is_integral r \<and> 0 \<le> r \<and> r < 2 ^ 32 then Some (nat \<lfloor>r\<rfloor>) else None)"
| "array_length _ = None"

text \<open>
  An array index is an integer from 0 to \<open>2^32 - 2\<close>; any other number used as a key
  (\<^verbatim>\<open>NaN\<close>, a negative or a fractional number) names a property that is no element.
\<close>

fun array_index :: "number \<Rightarrow> nat option" where
  "array_index (Fin r) =
     (if is_integral r \<and> 0 \<le> r \<and> r < 2 ^ 32 - 1 then Some (nat \<lfloor>r\<rfloor>) else None)"
| "array_index _ = None"

text \<open>
  \<^verbatim>\<open>histogram[binIndex]++\<close>. When \<open>binIndex\<close> is an index below the length, the element is
  incremented. Otherwise JavaScript writes a property or an element beyond the length,
  which no read of the elements \<open>0 .. bins - 1\<close> sees: these elements stay as they are.
\<close>

definition increment_at :: "number list \<Rightarrow> number \<Rightarrow> number list" where
  "increment_at histogram binIndex =
     (case array_index binIndex of
        Some i \<Rightarrow> if i < length histogram
                  then histogram[i := js_add (histogram ! i) (Fin 1)] else histogram
      | None \<Rightarrow> histogram)"

definition histogram_count ::
  "number \<Rightarrow> number \<Rightarrow> number \<Rightarrow> number \<Rightarrow> number list \<Rightarrow> number \<Rightarrow> number list" where
  "histogram_count bins actualMin actualMax binWidth histogram v =
     (if js_ge v actualMin \<and> js_le v actualMax
      then increment_at histogram
             (Math_min2 (Math_floor (js_div (js_sub v actualMin) binWidth))
                        (js_sub bins (Fin 1)))
      else histogram)"

definition generateHistogram ::
  "number list \<Rightarrow> number option \<Rightarrow> number option \<Rightarrow> number option \<Rightarrow> error + Point list" where
  "generateHistogram data bins_arg min_arg max_arg =
     (let bins = (case bins_arg of Some b \<Rightarrow> b | None \<Rightarrow> Fin 30);
          actualMin = (case min_arg of Some m \<Rightarrow> m | None \<Rightarrow> Math_min data);
          actualMax = (case max_arg of Some m \<Rightarrow> m | None \<Rightarrow> Math_max data);
          binWidth = js_div (js_sub actualMax actualMin) bins
      in case array_length bins of
           None \<Rightarrow> Inl RangeError
         | Some nbins \<Rightarrow>
             (let histogram = foldl (histogram_count bins actualMin actualMax binWidth)
                                (replicate nbins (Fin 0)) data
              in Inr (map (\<lambda>i. \<lparr>pt_x = js_add (js_add actualMin (js_mul (Fin (real i)) binWidth))
                                              (js_div binWidth (Fin 2)),
                                 pt_y = histogram ! i\<rparr>)
                        [0..<nbins])))"

subsection \<open>\<^verbatim>\<open>generateSignalWithHarmonics\<close>, as \<^verbatim>\<open>utils/math.ts\<close> defines it\<close>

text \<open>
  The inner loop \<^verbatim>\<open>for (let h = 1; h <= harmonics; h++)\<close> does not end when \<open>harmonics\<close>
  is \<^verbatim>\<open>Infinity\<close>; the outer loop runs over the indices of the array.
\<close>

partial_function (option) harmonics_loop_math ::
  "number \<Rightarrow> number \<Rightarrow> number \<Rightarrow> number \<Rightarrow> number \<Rightarrow> number \<Rightarrow> number option" where
  "harmonics_loop_math baseFrequency harmonics amplitude t h v =
     (if js_le h harmonics
      then (let harmonicFreq = js_mul baseFrequency h;
                harmonicAmp = js_div amplitude h
            in harmonics_loop_math baseFrequency harmonics amplitude t (js_add h (Fin 1))
                 (js_add v (js_mul harmonicAmp
                    (Math_sin (js_mul (js_mul (js_mul (Fin 2) Math_PI) harmonicFreq) t)))))
      else Some v)"

fun samples_loop_math ::
  "number \<Rightarrow> number \<Rightarrow> number \<Rightarrow> number \<Rightarrow> nat list \<Rightarrow> number list \<Rightarrow> number list option" where
  "samples_loop_math baseFrequency harmonics amplitude samples [] signal = Some signal"
| "samples_loop_math baseFrequency harmonics amplitude samples (i # is) signal =
     (case harmonics_loop_math baseFrequency harmonics amplitude
             (js_div (Fin (real i)) samples) (Fin 1) (Fin 0) of
        None \<Rightarrow> None
      | Some v \<Rightarrow>
          samples_loop_math baseFrequency harmonics amplitude samples is (signal[i := v]))"

definition generateSignalWithHarmonics_math ::
  "number \<Rightarrow> number \<Rightarrow> number option \<Rightarrow> number option \<Rightarrow> (error + number list) option" where
  "generateSignalWithHarmonics_math baseFrequency harmonics amplitude_arg samples_arg =
     (let amplitude = (case amplitude_arg of Some a \<Rightarrow> a | None \<Rightarrow> Fin 1);
          samples = (case samples_arg of Some s \<Rightarrow> s | None \<Rightarrow> Fin 1000)
      in case array_length samples of
           None \<Rightarrow> Some (Inl RangeError)
         | Some len \<Rightarrow>
             map_option Inr
               (samples_loop_math baseFrequency harmonics amplitude samples [0..<len]
                  (replicate len (Fin 0))))"

subsection \<open>\<^verbatim>\<open>generateSignalWithHarmonics\<close>, as \<^verbatim>\<open>utils/data.ts\<close> defines it\<close>

partial_function (option) harmonics_loop_data ::
  "number \<Rightarrow> number \<Rightarrow> number \<Rightarrow> number \<Rightarrow> number \<Rightarrow> number \<Rightarrow> number option" where
  "harmonics_loop_data baseFrequency harmonics amplitude t h v =
     (if js_le h harmonics
      then (let harmonicFreq = js_mul baseFrequency h;
                harmonicAmp = js_div amplitude h
            in harmonics_loop_data baseFrequency harmonics amplitude t (js_add h (Fin 1))
                 (js_add v (js_mul harmonicAmp
                    (Math_sin (js_mul (js_mul (js_mul (Fin 2) Math_PI) harmonicFreq) t)))))
      else Some v)"

fun samples_loop_data ::
  "number \<Rightarrow> number \<Rightarrow> number \<Rightarrow> number \<Rightarrow> nat list \<Rightarrow> number list \<Rightarrow> number list option" where
  "samples_loop_data baseFrequency harmonics amplitude samples [] signal = Some signal"
| "samples_loop_data baseFrequency harmonics amplitude samples (i # is) signal =
     (case harmonics_loop_data baseFrequency harmonics amplitude
             (js_div (Fin (real i)) samples) (Fin 1) (Fin 0) of
        None \<Rightarrow> None
      | Some v \<Rightarrow>
          samples_loop_data baseFrequency harmonics amplitude samples is (signal[i := v]))"

definition generateSignalWithHarmonics_data ::
  "number \<Rightarrow> number \<Rightarrow> number option \<Rightarrow> number option \<Rightarrow> (error + number list) option" where
  "generateSignalWithHarmonics_data baseFrequency harmonics amplitude_arg samples_arg =
     (let amplitude = (case amplitude_arg of Some a \<Rightarrow> a | None \<Rightarrow> Fin 1);
          samples = (case samples_arg of Some s \<Rightarrow> s | None \<Rightarrow> Fin 1000)
      in case array_length samples of
           None \<Rightarrow> Some (Inl RangeError)
         | Some len \<Rightarrow>
             map_option Inr
               (samples_loop_data baseFrequency harmonics amplitude samples [0..<len]
                  (replicate len (Fin 0))))"

section \<open>Specification functions\<close>

text \<open>
  The values of \<open>x\<close> in the loop of \<^verbatim>\<open>generateFunctionPoints\<close>, as the loop computes them:
  the start, and each next value by the rounded addition of the step.
\<close>

primrec loop_value :: "number \<Rightarrow> number \<Rightarrow> nat \<Rightarrow> number" where
  "loop_value start step 0 = start"
| "loop_value start step (Suc i) = js_add_binary64 (loop_value start step i) step"

text \<open>The points \<open>(x, f x)\<close> for the values \<open>x\<close> of a list at which \<open>f\<close> returns a finite number.\<close>

definition finite_points :: "(number \<Rightarrow> 'e + number) \<Rightarrow> number list \<Rightarrow> Point list" where
  "finite_points f xs =
     concat (map (\<lambda>x. case f x of
                         Inr y \<Rightarrow> if isFinite y then [\<lparr>pt_x = x, pt_y = y\<rparr>] else []
                       | Inl err \<Rightarrow> []) xs)"

text \<open>The multiples \<open>lo + i * st\<close> that are at most \<open>hi\<close>, in real arithmetic.\<close>

definition grid :: "real \<Rightarrow> real \<Rightarrow> real \<Rightarrow> real list" where
  "grid lo hi st = map (\<lambda>i. lo + real i * st) [0..<nat (\<lfloor>(hi - lo) / st\<rfloor> + 1)]"

section \<open>Properties\<close>

subsection \<open>\<^verbatim>\<open>poissonPMF\<close> of a negative count\<close>

text \<open>
  Claim C10. For every \<^verbatim>\<open>lambda\<close> and every negative \<^verbatim>\<open>k\<close> (also \<^verbatim>\<open>-Infinity\<close>),
  \<^verbatim>\<open>poissonPMF(k, lambda)\<close> returns \<^verbatim>\<open>NaN\<close>, not 0: \<^verbatim>\<open>factorial\<close> returns \<^verbatim>\<open>NaN\<close> for a
  negative argument, and a quotient by \<^verbatim>\<open>NaN\<close> is \<^verbatim>\<open>NaN\<close>.
\<close>

lemma js_div_NaN_right: "js_div a NaN = NaN"
  by (cases a) simp_all

theorem poissonPMF_negative_is_NaN:
  "js_lt k (Fin 0) \<Longrightarrow> poissonPMF k lambda = Some NaN"
  by (simp add: poissonPMF_def factorial_def js_div_NaN_right)

theorem poissonPMF_negative_is_NaN_witness:
  "js_lt (Fin (- 1)) (Fin 0) \<and> poissonPMF (Fin (- 1)) (Fin 2) = Some NaN"
  using poissonPMF_negative_is_NaN [of "Fin (- 1)" "Fin 2"] by simp

subsection \<open>\<^verbatim>\<open>parseFunction\<close>\<close>

lemma normalized_x: "normalized ''x'' = ''x''"
  by (simp add: normalized_def is_word_char_def)

text \<open>
  Claim C1. The claim says that \<^verbatim>\<open>parseFunction("ln(x)")\<close> evaluates the natural logarithm.
  The code does not: the first replacement turns \<^verbatim>\<open>ln(x)\<close> into \<^verbatim>\<open>log(x)\<close>, and the second
  replacement, which runs on the result of the first, turns that into \<^verbatim>\<open>log10(x)\<close>. So
  \<^verbatim>\<open>ln(x)\<close> and \<^verbatim>\<open>log(x)\<close> are compiled from the same text \<^verbatim>\<open>log10(x)\<close>, and whatever
  the compiler is, the two functions returned evaluate alike.
\<close>

theorem parseFunction_ln_compiles_log10:
  "normalized ''ln(x)'' = ''log10(x)'' \<and>
   normalized ''log(x)'' = ''log10(x)'' \<and>
   evaluate (parseFunction compile node_evaluate ''ln(x)'') =
   evaluate (parseFunction compile node_evaluate ''log(x)'')"
proof -
  have ln: "normalized ''ln(x)'' = ''log10(x)''"
    by (simp add: normalized_def is_word_char_def)
  have lg: "normalized ''log(x)'' = ''log10(x)''"
    by (simp add: normalized_def is_word_char_def)
  have "evaluate (parseFunction compile node_evaluate ''ln(x)'') =
        evaluate (parseFunction compile node_evaluate ''log(x)'')"
    unfolding parseFunction_def ln lg by (cases "compile ''log10(x)''") simp_all
  with ln lg show ?thesis by simp
qed

text \<open>
  Claim C2. When compiling the normalized expression fails, \<^verbatim>\<open>parseFunction\<close> raises
  nothing and returns the function with expression \<^verbatim>\<open>"x"\<close> and the identity as
  \<^verbatim>\<open>evaluate\<close>. If the compiler accepts \<^verbatim>\<open>"x"\<close> and the node it returns evaluates to the
  \<^verbatim>\<open>x\<close> of the scope (as mathjs does), this is the value that parsing \<^verbatim>\<open>"x"\<close> returns.
\<close>

theorem parseFunction_parse_failure:
  assumes "compile (normalized expr) = Inl err"
  shows "parseFunction compile node_evaluate expr =
           \<lparr>expression = ''x'', evaluate = (\<lambda>x. x), derivative = None\<rparr> \<and>
         (\<forall>node. compile ''x'' = Inr node \<and> (\<forall>v. node_evaluate node (scope v) = Inr v) \<longrightarrow>
            parseFunction compile node_evaluate expr = parseFunction compile node_evaluate ''x'')"
  using assms by (simp add: parseFunction_def normalized_x)

theorem parseFunction_parse_failure_witness:
  "(\<lambda>s. if s = ''x'' then Inr () else Inl ()) (normalized ''2*(x'') = (Inl () :: unit + unit) \<and>
   parseFunction (\<lambda>s. if s = ''x'' then Inr () else (Inl () :: unit + unit))
      (\<lambda>node sc. case sc ''x'' of Some v \<Rightarrow> Inr v | None \<Rightarrow> Inl ()) ''2*(x'' =
     \<lparr>expression = ''x'', evaluate = (\<lambda>x. x), derivative = None\<rparr> \<and>
   parseFunction (\<lambda>s. if s = ''x'' then Inr () else (Inl () :: unit + unit))
      (\<lambda>node sc. case sc ''x'' of Some v \<Rightarrow> Inr v | None \<Rightarrow> Inl ()) ''2*(x'' =
   parseFunction (\<lambda>s. if s = ''x'' then Inr () else Inl ())
      (\<lambda>node sc. case sc ''x'' of Some v \<Rightarrow> Inr v | None \<Rightarrow> Inl ()) ''x''"
  using parseFunction_parse_failure
    [where compile = "\<lambda>s. if s = ''x'' then Inr () else (Inl () :: unit + unit)"
       and node_evaluate = "\<lambda>node sc. case sc ''x'' of Some v \<Rightarrow> Inr v | None \<Rightarrow> Inl ()"
       and expr = "''2*(x''" and err = "()"]
  by (auto simp add: normalized_def is_word_char_def scope_def)

subsection \<open>\<^verbatim>\<open>binomialPMF\<close> outside the support\<close>

text \<open>
  For a probability strictly between 0 and 1 and finite \<open>k\<close> and \<open>n\<close>, the guard of
  \<^verbatim>\<open>binomialCoefficient\<close> makes the mass 0 outside the support: both powers are finite.
\<close>

lemma binomialPMF_out_of_support_interior:
  assumes "kr < 0 \<or> nr < kr" and "0 < p" and "p < 1"
  shows "binomialPMF (Fin kr) (Fin nr) (Fin p) = Some (Fin 0)"
  using assms by (auto simp add: binomialPMF_def binomialCoefficient_def js_sub_def js_gt_def)

text \<open>
  Claim C6. The claim says that \<^verbatim>\<open>binomialPMF(k, n, p)\<close> is 0 for \<open>k < 0\<close> or \<open>k > n\<close>,
  whatever \<open>p\<close> is. At the ends of the probability range the code returns \<^verbatim>\<open>NaN\<close>
  instead: for \<open>p = 0\<close> and \<open>k = -1\<close>, \<^verbatim>\<open>Math.pow(0, -1)\<close> is \<^verbatim>\<open>Infinity\<close>, and the
  coefficient 0 times \<^verbatim>\<open>Infinity\<close> is \<^verbatim>\<open>NaN\<close>; for \<open>p = 1\<close> and \<open>k = 2 > n = 1\<close>,
  \<^verbatim>\<open>Math.pow(1 - p, n - k)\<close> is \<^verbatim>\<open>Math.pow(0, -1)\<close>.
\<close>

theorem binomialPMF_out_of_support_NaN:
  "binomialPMF (Fin (- 1)) (Fin 1) (Fin 0) = Some NaN \<and>
   binomialPMF (Fin 2) (Fin 1) (Fin 1) = Some NaN"
  by (simp add: binomialPMF_def binomialCoefficient_def js_sub_def js_gt_def signed_inf_def)

subsection \<open>\<^verbatim>\<open>binomialPMF\<close> on its support\<close>

lemma binomial_next:
  assumes "j < n"
  shows "real (n choose j) * (real n - real (Suc j) + 1) / real (Suc j) = real (n choose Suc j)"
proof -
  have "Suc j * (n choose Suc j) = (n - j) * (n choose j)"
    by (simp only: binomial_absorption binomial_absorb_comp)
  then have "real (Suc j) * real (n choose Suc j) = real (n - j) * real (n choose j)"
    by (metis of_nat_mult)
  moreover have "real (n - j) = real n - real (Suc j) + 1"
    using assms by (simp add: of_nat_diff)
  ultimately show ?thesis
    by (simp add: field_simps)
qed

text \<open>
  The loop of \<^verbatim>\<open>binomialCoefficient\<close> for natural \<open>k \<le> n\<close>: before the step \<open>i\<close> the
  result is the coefficient \<open>n choose (i - 1)\<close>. Induction on the number of steps left.
\<close>

lemma binomialCoefficient_loop_choose:
  assumes "k \<le> n" and "j \<le> k"
  shows "binomialCoefficient_loop (Fin (real n)) (Fin (real k)) (Fin (real (Suc j)))
           (Fin (real (n choose j))) = Some (Fin (real (n choose k)))"
  using assms(2)
proof (induction "k - j" arbitrary: j)
  case 0
  then have "j = k" by simp
  then show ?case
    by (subst binomialCoefficient_loop.simps) simp
next
  case (Suc d)
  then have lt: "j < k" and d: "d = k - Suc j" and le: "Suc j \<le> k" by simp_all
  from lt assms(1) have "j < n" by simp
  then have next_coeff: "js_div (js_mul (Fin (real (n choose j)))
        (js_add (js_sub (Fin (real n)) (Fin (real (Suc j)))) (Fin 1))) (Fin (real (Suc j))) =
      Fin (real (n choose Suc j))"
    using binomial_next [of j n] by (simp add: js_sub_def)
  have step: "js_add (Fin (real (Suc j))) (Fin 1) = Fin (real (Suc (Suc j)))"
    by (simp add: add.commute)
  have "binomialCoefficient_loop (Fin (real n)) (Fin (real k)) (Fin (real (Suc j)))
           (Fin (real (n choose j))) =
        binomialCoefficient_loop (Fin (real n)) (Fin (real k)) (Fin (real (Suc (Suc j))))
           (Fin (real (n choose Suc j)))"
    using le by (subst binomialCoefficient_loop.simps) (simp only: next_coeff step js_le.simps of_nat_le_iff if_True)
  also have "\<dots> = Some (Fin (real (n choose k)))"
    using d le by (rule Suc(1))
  finally show ?case .
qed

lemma binomialCoefficient_choose:
  assumes "k \<le> n"
  shows "binomialCoefficient (Fin (real n)) (Fin (real k)) = Some (Fin (real (n choose k)))"
proof (cases "k = 0 \<or> k = n")
  case True
  then show ?thesis
    by (auto simp add: binomialCoefficient_def js_gt_def js_eq_def)
next
  case False
  with assms have "binomialCoefficient (Fin (real n)) (Fin (real k)) =
      binomialCoefficient_loop (Fin (real n)) (Fin (real k)) (Fin 1) (Fin 1)"
    by (simp add: binomialCoefficient_def js_gt_def js_eq_def)
  also have "\<dots> = Some (Fin (real (n choose k)))"
    using binomialCoefficient_loop_choose [OF assms, of 0] by simp
  finally show ?thesis .
qed

lemma Math_pow_nat: "Math_pow (Fin p) (Fin (real k)) = Fin (p ^ k)"
  by (simp add: is_integral_def finite_pow_def)

lemma binomialPMF_closed_form:
  assumes "k \<le> n"
  shows "binomialPMF (Fin (real k)) (Fin (real n)) (Fin p) =
           Some (Fin (real (n choose k) * p ^ k * (1 - p) ^ (n - k)))"
proof -
  have exponent: "js_sub (Fin (real n)) (Fin (real k)) = Fin (real (n - k))"
    using assms by (simp add: js_sub_def of_nat_diff)
  have base: "js_sub (Fin 1) (Fin p) = Fin (1 - p)"
    by (simp add: js_sub_def)
  show ?thesis
    unfolding binomialPMF_def binomialCoefficient_choose [OF assms] exponent base Math_pow_nat
    by simp
qed

lemma foldl_js_add_Fin: "foldl js_add (Fin a) (map Fin rs) = Fin (a + sum_list rs)"
  by (induction rs arbitrary: a) (simp_all add: add.assoc)

text \<open>
  Claim C5. For \<open>1 \<le> n \<le> 50\<close> and \<open>0 < p < 1\<close>, every call \<^verbatim>\<open>binomialPMF(k, n, p)\<close> with
  \<open>k = 0, ..., n\<close> returns, and in exact arithmetic the values add up (with the addition
  of numbers, from left to right) to exactly 1.
\<close>

theorem binomialPMF_sums_to_one:
  assumes "1 \<le> n" and "n \<le> 50" and "0 < p" and "p < 1"
  shows "\<exists>ys. map (\<lambda>k. binomialPMF (Fin (real k)) (Fin (real n)) (Fin p)) [0..<Suc n] =
                 map Some ys \<and>
              foldl js_add (Fin 0) ys = Fin 1"
proof -
  let ?w = "\<lambda>k. real (n choose k) * p ^ k * (1 - p) ^ (n - k)"
  let ?ys = "map (\<lambda>k. Fin (?w k)) [0..<Suc n]"
  have "map (\<lambda>k. binomialPMF (Fin (real k)) (Fin (real n)) (Fin p)) [0..<Suc n] = map Some ?ys"
    by (simp add: binomialPMF_closed_form del: upt_Suc)
  moreover have "foldl js_add (Fin 0) ?ys = Fin 1"
  proof -
    have "?ys = map Fin (map ?w [0..<Suc n])" by (simp only: map_map o_def)
    then have "foldl js_add (Fin 0) ?ys = Fin (0 + sum_list (map ?w [0..<Suc n]))"
      by (simp only: foldl_js_add_Fin)
    also have "sum_list (map ?w [0..<Suc n]) = (\<Sum>k\<le>n. ?w k)"
      by (simp only: interv_sum_list_conv_sum_set_nat atLeastLessThanSuc_atLeastAtMost
          atLeast0AtMost set_upt)
    also have "(\<Sum>k\<le>n. ?w k) = (p + (1 - p)) ^ n"
      by (simp only: binomial_ring)
    finally show ?thesis by simp
  qed
  ultimately show ?thesis by blast
qed

theorem binomialPMF_sums_to_one_witness:
  "(1 :: nat) \<le> 2 \<and> (2 :: nat) \<le> 50 \<and> (0 :: real) < 1 / 2 \<and> (1 / 2 :: real) < 1 \<and>
   (\<exists>ys. map (\<lambda>k. binomialPMF (Fin (real k)) (Fin (real (2 :: nat))) (Fin (1 / 2))) [0..<Suc 2] =
            map Some ys \<and>
         foldl js_add (Fin 0) ys = Fin 1)"
  using binomialPMF_sums_to_one [of 2 "1 / 2"] by simp

subsection \<open>\<^verbatim>\<open>generateHistogram\<close>\<close>

text \<open>
  With finite bounds \<open>lo < hi\<close> the bin width is positive and every value within
  \<open>[lo, hi]\<close> increments exactly one bin; a value outside increments none.
\<close>

lemma bin_index_valid:
  assumes "1 \<le> nb" and "real nb < 2 ^ 32" and "0 < bw" and "lo \<le> r"
  shows "\<exists>i<nb. array_index
           (Math_min2 (Math_floor (js_div (js_sub (Fin r) (Fin lo)) (Fin bw)))
              (js_sub (Fin (real nb)) (Fin 1))) = Some i"
proof -
  let ?q = "\<lfloor>(r - lo) / bw\<rfloor>"
  have q: "0 \<le> ?q" using assms(3,4) by simp
  have quotient: "Math_floor (js_div (js_sub (Fin r) (Fin lo)) (Fin bw)) = Fin (of_int ?q)"
    using assms(3) by (simp add: js_sub_def)
  have last: "js_sub (Fin (real nb)) (Fin 1) = Fin (real (nb - 1))"
    using assms(1) by (simp add: js_sub_def of_nat_diff)
  from assms(1,2) have bound: "real (nb - 1) < 2 ^ 32 - 1"
    by (simp add: of_nat_diff)
  show ?thesis
  proof (cases "?q \<le> int (nb - 1)")
    case True
    then have le: "real_of_int ?q \<le> real (nb - 1)" by linarith
    then have idx: "Math_min2 (Fin (of_int ?q)) (Fin (real (nb - 1))) = Fin (of_int ?q)"
      by (simp add: Math_min2_def)
    from True assms(1) have "nat ?q < nb" using q by linarith
    moreover from le bound have "real_of_int ?q < 2 ^ 32 - 1" by linarith
    then have "array_index (Fin (of_int ?q)) = Some (nat ?q)"
      using q by (simp add: is_integral_def)
    ultimately show ?thesis unfolding quotient last idx by blast
  next
    case False
    then have "\<not> real_of_int ?q \<le> real (nb - 1)" by linarith
    then have idx: "Math_min2 (Fin (of_int ?q)) (Fin (real (nb - 1))) = Fin (real (nb - 1))"
      by (simp add: Math_min2_def)
    from bound have "array_index (Fin (real (nb - 1))) = Some (nb - 1)"
      by (simp add: is_integral_def)
    moreover from assms(1) have "nb - 1 < nb" by simp
    ultimately show ?thesis unfolding quotient last idx by blast
  qed
qed

lemma increment_at_counts:
  assumes "array_index idx = Some i" and "i < length cs"
  shows "increment_at (map (\<lambda>c. Fin (real c)) cs) idx =
           map (\<lambda>c. Fin (real c)) (cs[i := Suc (cs ! i)])"
  using assms by (simp add: increment_at_def map_update add.commute)

lemma histogram_count_in_range:
  assumes "1 \<le> length cs" and "real (length cs) < 2 ^ 32" and "0 < bw"
    and "js_ge v (Fin lo)" and "js_le v (Fin hi)"
  shows "\<exists>cs'. histogram_count (Fin (real (length cs))) (Fin lo) (Fin hi) (Fin bw)
                 (map (\<lambda>c. Fin (real c)) cs) v = map (\<lambda>c. Fin (real c)) cs' \<and>
               length cs' = length cs \<and> sum_list cs' = Suc (sum_list cs)"
proof -
  from assms(4,5) obtain r where v: "v = Fin r" and r: "lo \<le> r"
    by (cases v) (simp_all add: js_ge_def)
  from bin_index_valid [OF assms(1,2,3) r] obtain i where i: "i < length cs"
    and idx: "array_index
           (Math_min2 (Math_floor (js_div (js_sub (Fin r) (Fin lo)) (Fin bw)))
              (js_sub (Fin (real (length cs))) (Fin 1))) = Some i"
    by blast
  have "histogram_count (Fin (real (length cs))) (Fin lo) (Fin hi) (Fin bw)
          (map (\<lambda>c. Fin (real c)) cs) v =
        map (\<lambda>c. Fin (real c)) (cs[i := Suc (cs ! i)])"
    using assms(4,5) unfolding histogram_count_def v
    by (simp only: if_True simp_thms increment_at_counts [OF idx i])
  moreover have "sum_list (cs[i := Suc (cs ! i)]) = Suc (sum_list cs)"
    using i by (simp add: sum_list_update)
  ultimately show ?thesis by (intro exI [of _ "cs[i := Suc (cs ! i)]"]) simp
qed

lemma histogram_counts_fold:
  assumes "1 \<le> length cs" and "real (length cs) < 2 ^ 32" and "0 < bw"
  shows "\<exists>cs'. foldl (histogram_count (Fin (real (length cs))) (Fin lo) (Fin hi) (Fin bw))
                 (map (\<lambda>c. Fin (real c)) cs) data = map (\<lambda>c. Fin (real c)) cs' \<and>
               length cs' = length cs \<and>
               sum_list cs' =
                 sum_list cs + length (filter (\<lambda>v. js_ge v (Fin lo) \<and> js_le v (Fin hi)) data)"
  using assms(1,2)
proof (induction data arbitrary: cs)
  case Nil
  show ?case by (intro exI [of _ cs]) simp
next
  case (Cons v data)
  show ?case
  proof (cases "js_ge v (Fin lo) \<and> js_le v (Fin hi)")
    case True
    with histogram_count_in_range [OF Cons.prems assms(3), of v lo hi]
    obtain cs1 where step: "histogram_count (Fin (real (length cs))) (Fin lo) (Fin hi) (Fin bw)
                 (map (\<lambda>c. Fin (real c)) cs) v = map (\<lambda>c. Fin (real c)) cs1"
      and len: "length cs1 = length cs" and total: "sum_list cs1 = Suc (sum_list cs)"
      by blast
    from Cons.prems len have "1 \<le> length cs1" and "real (length cs1) < 2 ^ 32" by simp_all
    from Cons.IH [OF this] obtain cs' where
      "foldl (histogram_count (Fin (real (length cs1))) (Fin lo) (Fin hi) (Fin bw))
                 (map (\<lambda>c. Fin (real c)) cs1) data = map (\<lambda>c. Fin (real c)) cs'"
      and "length cs' = length cs1"
      and "sum_list cs' =
             sum_list cs1 + length (filter (\<lambda>v. js_ge v (Fin lo) \<and> js_le v (Fin hi)) data)"
      by blast
    with True step len total show ?thesis
      by (intro exI [of _ cs']) simp
  next
    case False
    then have step: "histogram_count (Fin (real (length cs))) (Fin lo) (Fin hi) (Fin bw)
                 (map (\<lambda>c. Fin (real c)) cs) v = map (\<lambda>c. Fin (real c)) cs"
      unfolding histogram_count_def by (simp only: if_False)
    from Cons.IH [OF Cons.prems] obtain cs' where
      "foldl (histogram_count (Fin (real (length cs))) (Fin lo) (Fin hi) (Fin bw))
                 (map (\<lambda>c. Fin (real c)) cs) data = map (\<lambda>c. Fin (real c)) cs'"
      and "length cs' = length cs"
      and "sum_list cs' =
             sum_list cs + length (filter (\<lambda>v. js_ge v (Fin lo) \<and> js_le v (Fin hi)) data)"
      by blast
    with False step show ?thesis
      by (intro exI [of _ cs']) simp
  qed
qed

text \<open>
  The histogram for a bin count \<open>nb \<ge> 1\<close> and finite bounds \<open>lo < hi\<close> (given, or derived
  from the data): \<open>nb\<close> points are returned, and their counts add up to the number of
  values within \<open>[lo, hi]\<close>. The zero-width case \<open>lo = hi\<close> is the one of claim C7.
\<close>

lemma generateHistogram_counts_in_range:
  assumes "1 \<le> nb" and "real nb < 2 ^ 32"
    and "(case min_arg of Some m \<Rightarrow> m | None \<Rightarrow> Math_min data) = Fin lo"
    and "(case max_arg of Some m \<Rightarrow> m | None \<Rightarrow> Math_max data) = Fin hi"
    and "lo < hi"
  shows "\<exists>pts. generateHistogram data (Some (Fin (real nb))) min_arg max_arg = Inr pts \<and>
               length pts = nb \<and>
               foldl js_add (Fin 0) (map pt_y pts) =
                 Fin (real (length (filter (\<lambda>v. js_ge v (Fin lo) \<and> js_le v (Fin hi)) data)))"
proof -
  let ?bw = "(hi - lo) / real nb"
  let ?cs = "replicate nb (0 :: nat)"
  from assms(1,5) have bw: "0 < ?bw" by simp
  have width: "js_div (js_sub (Fin hi) (Fin lo)) (Fin (real nb)) = Fin ?bw"
    using assms(1) by (simp add: js_sub_def)
  have len: "array_length (Fin (real nb)) = Some nb"
    using assms(2) by (simp add: is_integral_def)
  have zeros: "replicate nb (Fin 0) = map (\<lambda>c. Fin (real c)) ?cs"
    by simp
  have "1 \<le> length ?cs" and "real (length ?cs) < 2 ^ 32"
    using assms(1,2) by simp_all
  from histogram_counts_fold [OF this bw, of lo hi data] obtain cs' where
    fold: "foldl (histogram_count (Fin (real nb)) (Fin lo) (Fin hi) (Fin ?bw))
             (map (\<lambda>c. Fin (real c)) ?cs) data = map (\<lambda>c. Fin (real c)) cs'"
    and len': "length cs' = nb"
    and total: "sum_list cs' = length (filter (\<lambda>v. js_ge v (Fin lo) \<and> js_le v (Fin hi)) data)"
    by auto
  let ?pts = "map (\<lambda>i. \<lparr>pt_x = js_add (js_add (Fin lo) (js_mul (Fin (real i)) (Fin ?bw)))
                                  (js_div (Fin ?bw) (Fin 2)),
                        pt_y = map (\<lambda>c. Fin (real c)) cs' ! i\<rparr>) [0..<nb]"
  have result: "generateHistogram data (Some (Fin (real nb))) min_arg max_arg = Inr ?pts"
    unfolding generateHistogram_def Let_def assms(3,4) option.case width len zeros fold
    by (rule refl)
  have "map pt_y ?pts = map (\<lambda>i. map (\<lambda>c. Fin (real c)) cs' ! i) [0..<nb]"
    by simp
  also have "\<dots> = map (\<lambda>c. Fin (real c)) cs'"
    using len' by (metis length_map map_nth)
  also have "\<dots> = map Fin (map real cs')"
    by simp
  finally have ys: "map pt_y ?pts = map Fin (map real cs')" .
  have "foldl js_add (Fin 0) (map pt_y ?pts) = Fin (0 + sum_list (map real cs'))"
    unfolding ys by (rule foldl_js_add_Fin)
  also have "sum_list (map real cs') = real (sum_list cs')"
    by (induction cs') simp_all
  finally have "foldl js_add (Fin 0) (map pt_y ?pts) =
      Fin (real (length (filter (\<lambda>v. js_ge v (Fin lo) \<and> js_le v (Fin hi)) data)))"
    using total by simp
  moreover have "length ?pts = nb" by simp
  ultimately show ?thesis using result by blast
qed

text \<open>
  Claim C7. The claim says that the counts of the returned points add up to the number of
  values within \<open>[min, max]\<close>. When the bounds coincide, as for data that are all equal,
  the code loses every value: the bin width is 0, the bin index \<^verbatim>\<open>Math.floor(0 / 0)\<close> is
  \<^verbatim>\<open>NaN\<close>, and \<^verbatim>\<open>histogram[NaN]++\<close> increments no bin. For the data \<^verbatim>\<open>[5]\<close> and 10 bins
  (bounds derived from the data) the ten points returned all have the count 0, although
  the value 5 lies within \<open>[5, 5]\<close>.
\<close>

theorem generateHistogram_single_value_lost:
  "generateHistogram [Fin 5] (Some (Fin 10)) None None =
     Inr (replicate 10 \<lparr>pt_x = Fin 5, pt_y = Fin 0\<rparr>)"
  by (simp add: generateHistogram_def Math_min_def Math_max_def Math_min2_def Math_max2_def
      js_sub_def is_integral_def histogram_count_def js_ge_def increment_at_def Let_def
      upt_rec numeral_eq_Suc)

subsection \<open>Binary64 numbers\<close>

lemma round_half_even_of_int: "round_half_even (of_int k) = k"
  by (simp add: round_half_even_def)

lemma floor_log2_binade:
  assumes "2 powi e \<le> x" and "x < 2 powi (e + 1)"
  shows "\<lfloor>log 2 x\<rfloor> = e"
proof (rule floor_unique)
  have pos: "0 < x"
    using assms(1) by (rule less_le_trans [OF zero_less_power_int, rotated]) simp
  have "2 powr real_of_int e = (2 :: real) powi e"
    by (rule powr_real_of_int') simp_all
  with assms(1) show "real_of_int e \<le> log 2 x"
    using pos by (simp add: le_log_iff)
  have "2 powr real_of_int (e + 1) = (2 :: real) powi (e + 1)"
    by (rule powr_real_of_int') simp_all
  with assms(2) have "log 2 x < real_of_int (e + 1)"
    using pos by (simp add: log_less_iff)
  then show "log 2 x < real_of_int e + 1" by simp
qed

text \<open>The binade of a positive real exists: the floor of its binary logarithm.\<close>

lemma binade_bounds:
  assumes "0 < x"
  shows "2 powi \<lfloor>log 2 x\<rfloor> \<le> x" and "x < 2 powi (\<lfloor>log 2 x\<rfloor> + 1)"
proof -
  have lower: "2 powr real_of_int \<lfloor>log 2 x\<rfloor> = (2 :: real) powi \<lfloor>log 2 x\<rfloor>"
    by (rule powr_real_of_int') simp_all
  have upper: "2 powr real_of_int (\<lfloor>log 2 x\<rfloor> + 1) = (2 :: real) powi (\<lfloor>log 2 x\<rfloor> + 1)"
    by (rule powr_real_of_int') simp_all
  have "real_of_int \<lfloor>log 2 x\<rfloor> \<le> log 2 x" by simp
  then have "2 powr real_of_int \<lfloor>log 2 x\<rfloor> \<le> x"
    using assms by (simp only: le_log_iff [symmetric] one_less_numeral_iff semiring_norm)
  then show "2 powi \<lfloor>log 2 x\<rfloor> \<le> x" by (simp only: lower)
  have "log 2 x < real_of_int (\<lfloor>log 2 x\<rfloor> + 1)" by simp
  then have "x < 2 powr real_of_int (\<lfloor>log 2 x\<rfloor> + 1)"
    using assms by (simp only: log_less_iff [symmetric] one_less_numeral_iff semiring_norm)
  then show "x < 2 powi (\<lfloor>log 2 x\<rfloor> + 1)" by (simp only: upper)
qed

text \<open>
  A real \<open>k * 2^q\<close> with an integer \<open>k\<close> of less than 53 bits and \<open>q \<ge> -1074\<close>, below the
  overflow threshold, is a binary64 number: rounding leaves it as it is.
\<close>

lemma binary64_unfold:
  assumes "r \<noteq> 0" and "qe = max \<lfloor>log 2 \<bar>r\<bar>\<rfloor> (- 1022) - 52"
    and "r / 2 powi qe = real_of_int n" and "\<bar>real_of_int n * 2 powi qe\<bar> < 2 ^ 1024"
  shows "binary64 r = Fin (real_of_int n * 2 powi qe)"
proof -
  have "binary64 r =
      (if 2 ^ 1024 \<le> \<bar>real_of_int (round_half_even (r / 2 powi qe)) * 2 powi qe\<bar>
       then signed_inf (0 < r)
       else Fin (real_of_int (round_half_even (r / 2 powi qe)) * 2 powi qe))"
    unfolding binary64_def Let_def assms(2) [symmetric] using assms(1) by (simp only: if_False)
  also have "\<dots> = Fin (real_of_int n * 2 powi qe)"
    unfolding assms(3) round_half_even_of_int using assms(4) by (simp only: not_le [symmetric] if_False)
  finally show ?thesis .
qed

lemma binary64_representable:
  assumes k: "\<bar>k\<bar> < 2 ^ 53" and q: "- 1074 \<le> q"
    and small: "\<bar>real_of_int k * 2 powi q\<bar> < 2 ^ 1024"
  shows "binary64 (real_of_int k * 2 powi q) = Fin (real_of_int k * 2 powi q)"
proof (cases "k = 0")
  case True
  then show ?thesis by (simp add: binary64_def)
next
  case False
  define r where "r = real_of_int k * 2 powi q"
  define e where "e = \<lfloor>log 2 \<bar>r\<bar>\<rfloor>"
  define qe where "qe = max e (- 1022) - 52"
  have r0: "r \<noteq> 0" using False by (simp add: r_def)
  then have rpos: "0 < \<bar>r\<bar>" by simp
  have abs_r: "\<bar>r\<bar> = real_of_int \<bar>k\<bar> * 2 powi q"
    by (simp add: r_def abs_mult)
  from k have "real_of_int \<bar>k\<bar> < real_of_int (2 ^ 53)"
    by (simp only: of_int_less_iff)
  then have "real_of_int \<bar>k\<bar> < 2 ^ 53" by simp
  then have "\<bar>r\<bar> < 2 ^ 53 * 2 powi q"
    unfolding abs_r by (simp add: mult_strict_right_mono)
  also have "\<dots> = (2 :: real) powi (53 + q)"
    by (simp add: power_int_add)
  finally have "\<bar>r\<bar> < (2 :: real) powi (53 + q)" .
  with binade_bounds(1) [OF rpos] have "(2 :: real) powi e < 2 powi (53 + q)"
    unfolding e_def by (rule le_less_trans)
  then have "e < 53 + q"
    by (metis linorder_not_less one_le_numeral power_int_increasing)
  with q have qe: "qe \<le> q" by (simp add: qe_def)
  define d where "d = nat (q - qe)"
  have split: "(2 :: real) powi q = 2 powi qe * 2 ^ d"
  proof -
    have "q = qe + int d" using qe by (simp add: d_def)
    then have "(2 :: real) powi q = 2 powi (qe + int d)" by simp
    also have "\<dots> = 2 powi qe * 2 powi (int d)" by (simp add: power_int_add)
    finally show ?thesis by simp
  qed
  have scaled: "r / 2 powi qe = real_of_int (k * 2 ^ d)"
    unfolding r_def split by simp
  have restored: "real_of_int (k * 2 ^ d) * 2 powi qe = r"
    unfolding r_def split by simp
  have "binary64 r = Fin (real_of_int (k * 2 ^ d) * 2 powi qe)"
  proof (rule binary64_unfold [OF r0 _ scaled])
    show "qe = max \<lfloor>log 2 \<bar>r\<bar>\<rfloor> (- 1022) - 52"
      by (simp only: qe_def e_def)
    show "\<bar>real_of_int (k * 2 ^ d) * 2 powi qe\<bar> < 2 ^ 1024"
      unfolding restored using small by (simp only: r_def)
  qed
  then show ?thesis unfolding restored by (simp only: r_def)
qed

lemma binary64_of_int:
  assumes "\<bar>k\<bar> < 2 ^ 53"
  shows "binary64 (real_of_int k) = Fin (real_of_int k)"
proof -
  from assms have "real_of_int \<bar>k\<bar> < real_of_int (2 ^ 53)"
    by (simp only: of_int_less_iff)
  then have "\<bar>real_of_int k\<bar> < 2 ^ 53" by simp
  also have "(2 :: real) ^ 53 < 2 ^ 1024" by simp
  finally have "\<bar>real_of_int k * 2 powi 0\<bar> < 2 ^ 1024" by simp
  from binary64_representable [OF assms _ this] show ?thesis by simp
qed

text \<open>
  Rounding in a given binade: with the exponent \<open>e\<close> known, the result is the rounded
  multiple of \<open>2^(e - 52)\<close>.
\<close>

lemma binary64_in_binade:
  assumes "2 powi e \<le> \<bar>r\<bar>" and "\<bar>r\<bar> < 2 powi (e + 1)" and "- 1022 \<le> e"
    and "round_half_even (r / 2 powi (e - 52)) = n"
    and "\<bar>real_of_int n * 2 powi (e - 52)\<bar> < 2 ^ 1024"
  shows "binary64 r = Fin (real_of_int n * 2 powi (e - 52))"
proof -
  have "0 < \<bar>r\<bar>"
    using assms(1) by (rule less_le_trans [OF zero_less_power_int, rotated]) simp
  then have r0: "r \<noteq> 0" by simp
  have e: "\<lfloor>log 2 \<bar>r\<bar>\<rfloor> = e"
    using assms(1,2) by (rule floor_log2_binade)
  have q: "max e (- 1022) - 52 = e - 52"
    using assms(3) by simp
  have "binary64 r =
      (if 2 ^ 1024 \<le> \<bar>real_of_int n * 2 powi (e - 52)\<bar>
       then signed_inf (0 < r) else Fin (real_of_int n * 2 powi (e - 52)))"
    unfolding binary64_def Let_def e q assms(4) using r0 by (simp only: if_False)
  also have "\<dots> = Fin (real_of_int n * 2 powi (e - 52))"
    using assms(5) by (simp only: not_le [symmetric] if_False)
  finally show ?thesis .
qed

subsection \<open>\<^verbatim>\<open>generateFunctionPoints\<close>\<close>

lemma loop_value_shift:
  "loop_value x st (Suc i) = loop_value (js_add_binary64 x st) st i"
  by (induction i) simp_all

text \<open>
  The loop returns as soon as one of its values is not at most the bound; it has then
  appended the finite points of the values before. Induction on the number of values.
\<close>

lemma generateFunctionPoints_loop_returns:
  assumes "\<forall>i<n. js_le (loop_value x st i) hi" and "\<not> js_le (loop_value x st n) hi"
  shows "generateFunctionPoints_loop f \<lparr>range_min = lo, range_max = hi, range_step = st\<rparr> x pts =
           Some (pts @ finite_points f (map (loop_value x st) [0..<n]))"
  using assms
proof (induction n arbitrary: x pts)
  case 0
  then show ?case
    by (subst generateFunctionPoints_loop.simps) (simp add: finite_points_def)
next
  case (Suc n)
  from Suc.prems(1) have here: "js_le x hi" by force
  have below: "\<forall>i<n. js_le (loop_value (js_add_binary64 x st) st i) hi"
    using Suc.prems(1) by (auto simp only: loop_value_shift [symmetric])
  have above: "\<not> js_le (loop_value (js_add_binary64 x st) st n) hi"
    using Suc.prems(2) unfolding loop_value_shift .
  have unrolled: "map (loop_value x st) [0..<Suc n] =
      x # map (loop_value (js_add_binary64 x st) st) [0..<n]"
    by (simp only: upt_conv_Cons zero_less_Suc list.map loop_value.simps(1)
        map_Suc_upt [symmetric] map_map o_def loop_value_shift)
  show ?case
    unfolding unrolled using here
    by (subst generateFunctionPoints_loop.simps)
      (auto simp add: Suc.IH [OF below above] finite_points_def split: sum.splits
         elim: isFinite.elims)
qed

text \<open>
  When every value stays at most the bound, the loop does not return: a result would
  show a value above the bound.
\<close>

lemma generateFunctionPoints_loop_exit:
  fixes f :: "number \<Rightarrow> 'e + number"
  assumes "generateFunctionPoints_loop f rng x pts = Some r"
  shows "\<exists>n. \<not> js_le (loop_value x (range_step rng) n) (range_max rng)"
proof (rule generateFunctionPoints_loop.raw_induct
    [where xa = "(((f, rng), x), pts)" and y = r
       and P = "\<lambda>(f :: number \<Rightarrow> 'e + number) rng x pts r.
                  \<exists>n. \<not> js_le (loop_value x (range_step rng) n) (range_max rng)",
     unfolded prod.case])
  show "generateFunctionPoints_loop f rng x pts = Some r" by fact
next
  fix loop :: "(number \<Rightarrow> 'e + number) \<Rightarrow> FunctionRange \<Rightarrow> number \<Rightarrow> Point list
      \<Rightarrow> Point list option"
    and g :: "number \<Rightarrow> 'e + number" and rng x pts r
  assume IH: "\<And>g rng x pts r. loop g rng x pts = Some r \<Longrightarrow>
      \<exists>n. \<not> js_le (loop_value x (range_step rng) n) (range_max rng)"
  assume eq: "(if js_le x (range_max rng)
      then loop g rng (js_add_binary64 x (range_step rng))
            (case g x of Inl err \<Rightarrow> pts
             | Inr y \<Rightarrow> if isFinite y \<and> \<not> isNaN y then pts @ [\<lparr>pt_x = x, pt_y = y\<rparr>] else pts)
      else Some pts) = Some r"
  show "\<exists>n. \<not> js_le (loop_value x (range_step rng) n) (range_max rng)"
  proof (cases "js_le x (range_max rng)")
    case False
    then have "\<not> js_le (loop_value x (range_step rng) 0) (range_max rng)" by simp
    then show ?thesis by blast
  next
    case True
    with eq obtain pts' where "loop g rng (js_add_binary64 x (range_step rng)) pts' = Some r"
      by simp
    from IH [OF this] obtain n where
      "\<not> js_le (loop_value (js_add_binary64 x (range_step rng)) (range_step rng) n) (range_max rng)"
      by blast
    then have "\<not> js_le (loop_value x (range_step rng) (Suc n)) (range_max rng)"
      unfolding loop_value_shift .
    then show ?thesis by blast
  qed
qed

lemma generateFunctionPoints_never_returns:
  assumes "\<forall>n. js_le (loop_value lo st n) hi"
  shows "generateFunctionPoints f \<lparr>range_min = lo, range_max = hi, range_step = st\<rparr> = None"
proof (cases "generateFunctionPoints f \<lparr>range_min = lo, range_max = hi, range_step = st\<rparr>")
  case None
  then show ?thesis .
next
  case (Some r)
  then have "generateFunctionPoints_loop f \<lparr>range_min = lo, range_max = hi, range_step = st\<rparr>
      lo [] = Some r"
    by (simp add: generateFunctionPoints_def)
  from generateFunctionPoints_loop_exit [OF this] assms show ?thesis by simp
qed

text \<open>
  Small integers are binary64 numbers, so the loop adds them exactly.
\<close>

lemma js_add_binary64_int:
  assumes "\<bar>a + b\<bar> < 2 ^ 53"
  shows "js_add_binary64 (Fin (real_of_int a)) (Fin (real_of_int b)) = Fin (real_of_int (a + b))"
  using binary64_of_int [OF assms] by (simp add: js_add_binary64_def)

text \<open>
  When the multiples \<open>lo + i * st\<close> up to the first one above \<open>hi\<close> are binary64 numbers,
  every addition of the loop is exact and the values of the loop are these multiples.
\<close>

lemma loop_value_exact:
  assumes "\<forall>i. 1 \<le> i \<and> i \<le> n \<longrightarrow> binary64 (lo + real i * st) = Fin (lo + real i * st)"
    and "i \<le> n"
  shows "loop_value (Fin lo) (Fin st) i = Fin (lo + real i * st)"
  using assms(2)
proof (induction i)
  case 0
  show ?case by simp
next
  case (Suc i)
  then have "loop_value (Fin lo) (Fin st) i = Fin (lo + real i * st)" by simp
  then have "loop_value (Fin lo) (Fin st) (Suc i) = binary64 (lo + real i * st + st)"
    by (simp add: js_add_binary64_def)
  also have "lo + real i * st + st = lo + real (Suc i) * st"
    by (simp add: algebra_simps)
  also have "binary64 (lo + real (Suc i) * st) = Fin (lo + real (Suc i) * st)"
    using assms(1) [rule_format, of "Suc i"] Suc.prems by simp
  finally show ?case .
qed

lemma length_finite_points:
  assumes "\<forall>x\<in>set xs. \<exists>y. f x = Inr (Fin y)"
  shows "length (finite_points f xs) = length xs"
  using assms
proof (induction xs)
  case Nil
  show ?case by (simp add: finite_points_def)
next
  case (Cons a xs)
  then obtain y where "f a = Inr (Fin y)" by auto
  with Cons show ?case by (simp add: finite_points_def)
qed

lemma generateFunctionPoints_exact_grid:
  assumes "lo \<le> hi" and "0 < st"
    and exact: "\<forall>i. 1 \<le> i \<and> i \<le> nat \<lfloor>(hi - lo) / st\<rfloor> + 1 \<longrightarrow>
                  binary64 (lo + real i * st) = Fin (lo + real i * st)"
  shows "generateFunctionPoints f \<lparr>range_min = Fin lo, range_max = Fin hi, range_step = Fin st\<rparr> =
           Some (finite_points f (map Fin (grid lo hi st)))"
proof -
  define K where "K = nat \<lfloor>(hi - lo) / st\<rfloor>"
  have floor_nonneg: "0 \<le> \<lfloor>(hi - lo) / st\<rfloor>" using assms(1,2) by simp
  then have K: "real K = real_of_int \<lfloor>(hi - lo) / st\<rfloor>" by (simp add: K_def)
  have iter: "loop_value (Fin lo) (Fin st) i = Fin (lo + real i * st)" if "i \<le> K + 1" for i
    using exact that unfolding K_def by (rule loop_value_exact)
  have below: "\<forall>i<Suc K. js_le (loop_value (Fin lo) (Fin st) i) (Fin hi)"
  proof (intro allI impI)
    fix i assume "i < Suc K"
    then have i: "i \<le> K" by simp
    then have "real i \<le> real K" by simp
    also have "\<dots> \<le> (hi - lo) / st" unfolding K by simp
    finally have "real i * st \<le> hi - lo" using assms(2) by (simp add: pos_le_divide_eq)
    then show "js_le (loop_value (Fin lo) (Fin st) i) (Fin hi)"
      using i by (simp add: iter)
  qed
  have above: "\<not> js_le (loop_value (Fin lo) (Fin st) (Suc K)) (Fin hi)"
  proof -
    have "(hi - lo) / st < real_of_int \<lfloor>(hi - lo) / st\<rfloor> + 1" by linarith
    also have "\<dots> = real (Suc K)" using K by simp
    finally have "hi - lo < real (Suc K) * st" using assms(2) by (simp add: pos_divide_less_eq)
    then have "\<not> lo + real (Suc K) * st \<le> hi" by simp
    moreover have "loop_value (Fin lo) (Fin st) (Suc K) = Fin (lo + real (Suc K) * st)"
      by (rule iter) simp
    ultimately show ?thesis by (simp only: js_le.simps simp_thms)
  qed
  have "map (loop_value (Fin lo) (Fin st)) [0..<Suc K] = map (\<lambda>i. Fin (lo + real i * st)) [0..<Suc K]"
    by (rule map_cong) (auto intro: iter)
  also have "\<dots> = map Fin (grid lo hi st)"
  proof -
    have "nat (\<lfloor>(hi - lo) / st\<rfloor> + 1) = Suc K"
      unfolding K_def using floor_nonneg by arith
    then show ?thesis by (simp only: grid_def map_map o_def)
  qed
  finally have grid_values: "map (loop_value (Fin lo) (Fin st)) [0..<Suc K] = map Fin (grid lo hi st)" .
  show ?thesis
    using generateFunctionPoints_loop_returns [OF below above, of f "Fin lo" "[]"]
    unfolding grid_values generateFunctionPoints_def by simp
qed

lemma length_grid:
  assumes "lo \<le> hi" and "0 < st"
  shows "int (length (grid lo hi st)) = \<lfloor>(hi - lo) / st\<rfloor> + 1"
proof -
  have "0 \<le> \<lfloor>(hi - lo) / st\<rfloor>" using assms by simp
  then show ?thesis by (simp add: grid_def)
qed

text \<open>
  The additions are exact on an integer range below \<open>2^53\<close>: for integers \<open>a \<le> b\<close> and
  \<open>s > 0\<close> with \<open>|a| < 2^53\<close> and \<open>b + s < 2^53\<close>, the multiples \<open>a + i * s\<close> up to the
  first one above \<open>b\<close> are binary64 numbers.
\<close>

lemma integer_multiples_exact:
  assumes "\<bar>a\<bar> < 2 ^ 53" and "0 < s" and "a \<le> b" and "b + s < 2 ^ 53"
  shows "\<forall>i. 1 \<le> i \<and> i \<le> nat \<lfloor>(real_of_int b - real_of_int a) / real_of_int s\<rfloor> + 1 \<longrightarrow>
           binary64 (real_of_int a + real i * real_of_int s) =
           Fin (real_of_int a + real i * real_of_int s)"
proof (intro allI impI)
  fix i :: nat
  assume i: "1 \<le> i \<and> i \<le> nat \<lfloor>(real_of_int b - real_of_int a) / real_of_int s\<rfloor> + 1"
  have fl: "\<lfloor>(real_of_int b - real_of_int a) / real_of_int s\<rfloor> = (b - a) div s"
    by (metis floor_divide_of_int_eq of_int_diff)
  have quotient: "0 \<le> (b - a) div s"
    using assms(2,3) by (simp add: pos_imp_zdiv_nonneg_iff)
  from i have "i \<le> nat ((b - a) div s) + 1"
    unfolding fl by simp
  with quotient have "int i \<le> (b - a) div s + 1" by linarith
  then have "int i * s \<le> ((b - a) div s + 1) * s"
    using assms(2) by (simp add: mult_right_mono)
  also have "\<dots> = (b - a) div s * s + s"
    by (simp add: algebra_simps)
  also have "(b - a) div s * s \<le> b - a"
  proof -
    have "b - a = (b - a) div s * s + (b - a) mod s" by simp
    moreover have "0 \<le> (b - a) mod s" using assms(2) by simp
    ultimately show ?thesis by linarith
  qed
  finally have upper: "a + int i * s \<le> b + s" by simp
  have "0 \<le> int i * s" using assms(2) by simp
  then have lower: "a \<le> a + int i * s" by simp
  from assms(1) lower upper assms(4) have "\<bar>a + int i * s\<bar> < 2 ^ 53" by linarith
  from binary64_of_int [OF this]
  show "binary64 (real_of_int a + real i * real_of_int s) =
        Fin (real_of_int a + real i * real_of_int s)"
    by simp
qed

lemma binary64_1: "binary64 1 = Fin 1"
  using binary64_of_int [of 1] by simp

lemma binary64_2: "binary64 2 = Fin 2"
  using binary64_of_int [of 2] by simp

text \<open>
  Claim C3, as stated (the loop visits \<open>ceil((max - min) / step) + 1\<close> values), fails
  where the step does not divide the width of the range: on the range from 0 to 1 with
  step 2 the loop visits 0 only (the sum \<open>0 + 2\<close> is exact), and the identity function
  yields one point, where the formula of the claim gives \<open>ceil(1 / 2) + 1 = 2\<close>.
\<close>

theorem generateFunctionPoints_count_not_ceiling:
  "map_option length
     (generateFunctionPoints (Inr :: number \<Rightarrow> unit + number)
        \<lparr>range_min = Fin 0, range_max = Fin 1, range_step = Fin 2\<rparr>) = Some 1 \<and>
   map_option length
     (generateFunctionPoints (Inr :: number \<Rightarrow> unit + number)
        \<lparr>range_min = Fin 0, range_max = Fin 1, range_step = Fin 2\<rparr>) \<noteq>
     Some (nat (\<lceil>(1 - 0) / (2 :: real)\<rceil> + 1))"
proof -
  have "\<lceil>(1 - 0) / (2 :: real)\<rceil> = 1"
    by (rule ceiling_unique) simp_all
  then show ?thesis
    by (simp add: generateFunctionPoints_def generateFunctionPoints_loop.simps
        js_add_binary64_def binary64_2)
qed

text \<open>
  Claim C3, amended. Take a range with \<open>min \<le> max\<close> and \<open>step > 0\<close> on which every
  addition \<open>x + step\<close> of the loop is exact: the multiples \<open>min + i * step\<close> up to the first
  one above \<open>max\<close> are binary64 numbers. Then the loop returns after visiting exactly
  the \<open>floor((max - min) / step) + 1\<close> multiples that are at most \<open>max\<close>, and for a function
  that is finite at these values the returned list has that many points. (Where an
  addition rounds, the number of values can differ from this formula.)
\<close>

theorem generateFunctionPoints_count_floor:
  assumes "lo \<le> hi" and "0 < st"
    and "\<forall>i. 1 \<le> i \<and> i \<le> nat \<lfloor>(hi - lo) / st\<rfloor> + 1 \<longrightarrow>
           binary64 (lo + real i * st) = Fin (lo + real i * st)"
  shows "generateFunctionPoints f
           \<lparr>range_min = Fin lo, range_max = Fin hi, range_step = Fin st\<rparr> =
           Some (finite_points f (map Fin (grid lo hi st))) \<and>
         int (length (grid lo hi st)) = \<lfloor>(hi - lo) / st\<rfloor> + 1 \<and>
         ((\<forall>x\<in>set (grid lo hi st). \<exists>y. f (Fin x) = Inr (Fin y)) \<longrightarrow>
            map_option (\<lambda>pts. int (length pts))
              (generateFunctionPoints f
                 \<lparr>range_min = Fin lo, range_max = Fin hi, range_step = Fin st\<rparr>) =
              Some (\<lfloor>(hi - lo) / st\<rfloor> + 1))"
proof (intro conjI impI)
  show returned: "generateFunctionPoints f
      \<lparr>range_min = Fin lo, range_max = Fin hi, range_step = Fin st\<rparr> =
      Some (finite_points f (map Fin (grid lo hi st)))"
    using assms by (rule generateFunctionPoints_exact_grid)
  show visited: "int (length (grid lo hi st)) = \<lfloor>(hi - lo) / st\<rfloor> + 1"
    using assms(1,2) by (rule length_grid)
  assume "\<forall>x\<in>set (grid lo hi st). \<exists>y. f (Fin x) = Inr (Fin y)"
  then have "\<forall>x\<in>set (map Fin (grid lo hi st)). \<exists>y. f x = Inr (Fin y)"
    by auto
  then have "length (finite_points f (map Fin (grid lo hi st))) = length (map Fin (grid lo hi st))"
    by (rule length_finite_points)
  with visited show "map_option (\<lambda>pts. int (length pts))
      (generateFunctionPoints f
         \<lparr>range_min = Fin lo, range_max = Fin hi, range_step = Fin st\<rparr>) =
      Some (\<lfloor>(hi - lo) / st\<rfloor> + 1)"
    unfolding returned by simp
qed

theorem generateFunctionPoints_count_floor_witness:
  "(0 :: real) \<le> 7 \<and> (0 :: real) < 2 \<and>
   generateFunctionPoints (Inr :: number \<Rightarrow> unit + number)
      \<lparr>range_min = Fin 0, range_max = Fin 7, range_step = Fin 2\<rparr> =
     Some [\<lparr>pt_x = Fin 0, pt_y = Fin 0\<rparr>, \<lparr>pt_x = Fin 2, pt_y = Fin 2\<rparr>,
           \<lparr>pt_x = Fin 4, pt_y = Fin 4\<rparr>, \<lparr>pt_x = Fin 6, pt_y = Fin 6\<rparr>] \<and>
   map_option (\<lambda>pts. int (length pts))
     (generateFunctionPoints (Inr :: number \<Rightarrow> unit + number)
        \<lparr>range_min = Fin 0, range_max = Fin 7, range_step = Fin 2\<rparr>) =
     Some (\<lfloor>(7 - 0) / (2 :: real)\<rfloor> + 1) \<and>
   \<lfloor>(7 - 0) / (2 :: real)\<rfloor> + 1 = 4"
proof -
  have fl: "\<lfloor>(7 - 0) / (2 :: real)\<rfloor> = 3"
    by (rule floor_unique) simp_all
  have exact: "\<forall>i. 1 \<le> i \<and> i \<le> nat \<lfloor>(7 - 0) / (2 :: real)\<rfloor> + 1 \<longrightarrow>
      binary64 (0 + real i * 2) = Fin (0 + real i * 2)"
  proof (intro allI impI)
    fix i :: nat
    assume "1 \<le> i \<and> i \<le> nat \<lfloor>(7 - 0) / (2 :: real)\<rfloor> + 1"
    then have "i \<le> 4" unfolding fl by simp
    then have "\<bar>int i * 2\<bar> < 2 ^ 53" by simp
    from binary64_of_int [OF this] show "binary64 (0 + real i * 2) = Fin (0 + real i * 2)"
      by simp
  qed
  have grid: "grid 0 7 2 = [0, 2, 4, 6]"
    unfolding grid_def fl by (simp add: upt_rec numeral_eq_Suc)
  have finite: "\<forall>x\<in>set (grid 0 7 2). \<exists>y. (Inr :: number \<Rightarrow> unit + number) (Fin x) = Inr (Fin y)"
    by simp
  from generateFunctionPoints_count_floor
    [of 0 7 2 "Inr :: number \<Rightarrow> unit + number", OF _ _ exact] finite fl
  show ?thesis
    by (simp add: grid finite_points_def)
qed

text \<open>
  Claim C4. \<^verbatim>\<open>generateFunctionPoints\<close> returns exactly the points \<open>(x, f x)\<close> for the values
  \<open>x\<close> that its loop visits and at which \<open>f\<close> returns a finite number, in the order of
  the visits; a visited value where \<open>f\<close> is \<^verbatim>\<open>NaN\<close> or infinite (or throws) leaves no
  point. The visited values are those the loop computes, \<open>min\<close> and then each sum with
  the step, up to the first one that is not at most \<open>max\<close>, where the loop returns. In
  particular the identity on the range from -1 to 1 with step 1 gives the three points
  \<open>(-1, -1)\<close>, \<open>(0, 0)\<close>, \<open>(1, 1)\<close>.
\<close>

theorem generateFunctionPoints_skips_non_finite:
  "((\<forall>i<n. js_le (loop_value lo st i) hi) \<and> \<not> js_le (loop_value lo st n) hi \<longrightarrow>
      generateFunctionPoints f \<lparr>range_min = lo, range_max = hi, range_step = st\<rparr> =
        Some (finite_points f (map (loop_value lo st) [0..<n]))) \<and>
   generateFunctionPoints (\<lambda>x. Inr x :: unit + number)
      \<lparr>range_min = Fin (- 1), range_max = Fin 1, range_step = Fin 1\<rparr> =
     Some [\<lparr>pt_x = Fin (- 1), pt_y = Fin (- 1)\<rparr>, \<lparr>pt_x = Fin 0, pt_y = Fin 0\<rparr>,
           \<lparr>pt_x = Fin 1, pt_y = Fin 1\<rparr>]"
proof (intro conjI impI)
  assume "(\<forall>i<n. js_le (loop_value lo st i) hi) \<and> \<not> js_le (loop_value lo st n) hi"
  then have below: "\<forall>i<n. js_le (loop_value lo st i) hi"
    and above: "\<not> js_le (loop_value lo st n) hi" by simp_all
  show "generateFunctionPoints f \<lparr>range_min = lo, range_max = hi, range_step = st\<rparr> =
        Some (finite_points f (map (loop_value lo st) [0..<n]))"
    using generateFunctionPoints_loop_returns [OF below above, of f lo "[]"]
    by (simp add: generateFunctionPoints_def)
next
  have zero: "binary64 0 = Fin 0" by (simp add: binary64_def)
  show "generateFunctionPoints (\<lambda>x. Inr x :: unit + number)
      \<lparr>range_min = Fin (- 1), range_max = Fin 1, range_step = Fin 1\<rparr> =
     Some [\<lparr>pt_x = Fin (- 1), pt_y = Fin (- 1)\<rparr>, \<lparr>pt_x = Fin 0, pt_y = Fin 0\<rparr>,
           \<lparr>pt_x = Fin 1, pt_y = Fin 1\<rparr>]"
    by (simp add: generateFunctionPoints_def generateFunctionPoints_loop.simps
        js_add_binary64_def zero binary64_1 binary64_2)
qed

theorem generateFunctionPoints_skips_non_finite_witness:
  "js_le (loop_value (Fin (- 1)) (Fin 1) 0) (Fin 1) \<and>
   js_le (loop_value (Fin (- 1)) (Fin 1) 1) (Fin 1) \<and>
   js_le (loop_value (Fin (- 1)) (Fin 1) 2) (Fin 1) \<and>
   \<not> js_le (loop_value (Fin (- 1)) (Fin 1) 3) (Fin 1) \<and>
   generateFunctionPoints (\<lambda>x. Inr (js_div (Fin 1) x) :: unit + number)
      \<lparr>range_min = Fin (- 1), range_max = Fin 1, range_step = Fin 1\<rparr> =
     Some [\<lparr>pt_x = Fin (- 1), pt_y = Fin (- 1)\<rparr>, \<lparr>pt_x = Fin 1, pt_y = Fin 1\<rparr>]"
proof -
  have zero: "binary64 0 = Fin 0" by (simp add: binary64_def)
  have v0: "loop_value (Fin (- 1)) (Fin 1) 0 = Fin (- 1)" by simp
  have v1: "loop_value (Fin (- 1)) (Fin 1) (Suc 0) = Fin 0"
    by (simp add: js_add_binary64_def zero)
  have v2: "loop_value (Fin (- 1)) (Fin 1) (Suc (Suc 0)) = Fin 1"
    unfolding loop_value.simps(2) [of _ _ "Suc 0"] v1 by (simp add: js_add_binary64_def binary64_1)
  have v3: "loop_value (Fin (- 1)) (Fin 1) (Suc (Suc (Suc 0))) = Fin 2"
    unfolding loop_value.simps(2) [of _ _ "Suc (Suc 0)"] v2
    by (simp add: js_add_binary64_def binary64_2)
  have below: "\<forall>i<3. js_le (loop_value (Fin (- 1)) (Fin 1) i) (Fin 1)"
  proof (intro allI impI)
    fix i :: nat assume "i < 3"
    then have "i = 0 \<or> i = Suc 0 \<or> i = Suc (Suc 0)" by arith
    then show "js_le (loop_value (Fin (- 1)) (Fin 1) i) (Fin 1)"
      using v0 v1 v2 by auto
  qed
  have above: "\<not> js_le (loop_value (Fin (- 1)) (Fin 1) 3) (Fin 1)"
    using v3 by (simp add: numeral_3_eq_3)
  have visited: "map (loop_value (Fin (- 1)) (Fin 1)) [0..<3] = [Fin (- 1), Fin 0, Fin 1]"
    using v0 v1 v2 by (simp add: upt_rec numeral_3_eq_3 del: loop_value.simps)
  from generateFunctionPoints_skips_non_finite
    [of 3 "Fin (- 1)" "Fin 1" "Fin 1" "\<lambda>x. Inr (js_div (Fin 1) x) :: unit + number"]
    below above
  have "generateFunctionPoints (\<lambda>x. Inr (js_div (Fin 1) x) :: unit + number)
      \<lparr>range_min = Fin (- 1), range_max = Fin 1, range_step = Fin 1\<rparr> =
     Some (finite_points (\<lambda>x. Inr (js_div (Fin 1) x) :: unit + number)
            (map (loop_value (Fin (- 1)) (Fin 1)) [0..<3]))"
    by blast
  then have "generateFunctionPoints (\<lambda>x. Inr (js_div (Fin 1) x) :: unit + number)
      \<lparr>range_min = Fin (- 1), range_max = Fin 1, range_step = Fin 1\<rparr> =
     Some [\<lparr>pt_x = Fin (- 1), pt_y = Fin (- 1)\<rparr>, \<lparr>pt_x = Fin 1, pt_y = Fin 1\<rparr>]"
    unfolding visited by (simp add: finite_points_def signed_inf_def)
  with below above v0 v1 v2 show ?thesis
    by (simp add: numeral_3_eq_3 numeral_2_eq_2 del: loop_value.simps)
qed

text \<open>
  Where the additions round, the loop follows the rounded sums. The step below is the
  binary64 number nearest to 0.1, a little above 0.1, so that only 10 of its multiples
  are at most 1; but the sums of the loop are rounded, the tenth one to \<open>1 - 2^(-53)\<close>,
  and the loop visits 11 values on the range from 0 to 1.
\<close>

lemma tenth_step_1:
  "js_add_binary64 (Fin (0))
     (Fin (3602879701896397 / 36028797018963968)) =
   Fin (3602879701896397 / 36028797018963968)"
proof -
  have "binary64 (3602879701896397 / 36028797018963968) =
        Fin (real_of_int 7205759403792794 * 2 powi (-4 - 52))"
    by (rule binary64_in_binade) (simp_all add: round_half_even_def power_int_minus)
  then show ?thesis
    by (simp add: js_add_binary64_def power_int_minus)
qed

lemma tenth_step_2:
  "js_add_binary64 (Fin (3602879701896397 / 36028797018963968))
     (Fin (3602879701896397 / 36028797018963968)) =
   Fin (3602879701896397 / 18014398509481984)"
proof -
  have "binary64 (3602879701896397 / 18014398509481984) =
        Fin (real_of_int 7205759403792794 * 2 powi (-3 - 52))"
    by (rule binary64_in_binade) (simp_all add: round_half_even_def power_int_minus)
  then show ?thesis
    by (simp add: js_add_binary64_def power_int_minus)
qed

lemma tenth_step_3:
  "js_add_binary64 (Fin (3602879701896397 / 18014398509481984))
     (Fin (3602879701896397 / 36028797018963968)) =
   Fin (1351079888211149 / 4503599627370496)"
proof -
  have "binary64 (10808639105689191 / 36028797018963968) =
        Fin (real_of_int 5404319552844596 * 2 powi (-2 - 52))"
    by (rule binary64_in_binade) (simp_all add: round_half_even_def power_int_minus)
  then show ?thesis
    by (simp add: js_add_binary64_def power_int_minus)
qed

lemma tenth_step_4:
  "js_add_binary64 (Fin (1351079888211149 / 4503599627370496))
     (Fin (3602879701896397 / 36028797018963968)) =
   Fin (3602879701896397 / 9007199254740992)"
proof -
  have "binary64 (14411518807585589 / 36028797018963968) =
        Fin (real_of_int 7205759403792794 * 2 powi (-2 - 52))"
    by (rule binary64_in_binade) (simp_all add: round_half_even_def power_int_minus)
  then show ?thesis
    by (simp add: js_add_binary64_def power_int_minus)
qed

lemma tenth_step_5:
  "js_add_binary64 (Fin (3602879701896397 / 9007199254740992))
     (Fin (3602879701896397 / 36028797018963968)) =
   Fin (1 / 2)"
proof -
  have "binary64 (18014398509481985 / 36028797018963968) =
        Fin (real_of_int 4503599627370496 * 2 powi (-1 - 52))"
    by (rule binary64_in_binade) (simp_all add: round_half_even_def power_int_minus)
  then show ?thesis
    by (simp add: js_add_binary64_def power_int_minus)
qed

lemma tenth_step_6:
  "js_add_binary64 (Fin (1 / 2))
     (Fin (3602879701896397 / 36028797018963968)) =
   Fin (5404319552844595 / 9007199254740992)"
proof -
  have "binary64 (21617278211378381 / 36028797018963968) =
        Fin (real_of_int 5404319552844595 * 2 powi (-1 - 52))"
    by (rule binary64_in_binade) (simp_all add: round_half_even_def power_int_minus)
  then show ?thesis
    by (simp add: js_add_binary64_def power_int_minus)
qed

lemma tenth_step_7:
  "js_add_binary64 (Fin (5404319552844595 / 9007199254740992))
     (Fin (3602879701896397 / 36028797018963968)) =
   Fin (3152519739159347 / 4503599627370496)"
proof -
  have "binary64 (25220157913274777 / 36028797018963968) =
        Fin (real_of_int 6305039478318694 * 2 powi (-1 - 52))"
    by (rule binary64_in_binade) (simp_all add: round_half_even_def power_int_minus)
  then show ?thesis
    by (simp add: js_add_binary64_def power_int_minus)
qed

lemma tenth_step_8:
  "js_add_binary64 (Fin (3152519739159347 / 4503599627370496))
     (Fin (3602879701896397 / 36028797018963968)) =
   Fin (7205759403792793 / 9007199254740992)"
proof -
  have "binary64 (28823037615171173 / 36028797018963968) =
        Fin (real_of_int 7205759403792793 * 2 powi (-1 - 52))"
    by (rule binary64_in_binade) (simp_all add: round_half_even_def power_int_minus)
  then show ?thesis
    by (simp add: js_add_binary64_def power_int_minus)
qed

lemma tenth_step_9:
  "js_add_binary64 (Fin (7205759403792793 / 9007199254740992))
     (Fin (3602879701896397 / 36028797018963968)) =
   Fin (2026619832316723 / 2251799813685248)"
proof -
  have "binary64 (32425917317067569 / 36028797018963968) =
        Fin (real_of_int 8106479329266892 * 2 powi (-1 - 52))"
    by (rule binary64_in_binade) (simp_all add: round_half_even_def power_int_minus)
  then show ?thesis
    by (simp add: js_add_binary64_def power_int_minus)
qed

lemma tenth_step_10:
  "js_add_binary64 (Fin (2026619832316723 / 2251799813685248))
     (Fin (3602879701896397 / 36028797018963968)) =
   Fin (9007199254740991 / 9007199254740992)"
proof -
  have "binary64 (36028797018963965 / 36028797018963968) =
        Fin (real_of_int 9007199254740991 * 2 powi (-1 - 52))"
    by (rule binary64_in_binade) (simp_all add: round_half_even_def power_int_minus)
  then show ?thesis
    by (simp add: js_add_binary64_def power_int_minus)
qed

lemma tenth_step_11:
  "js_add_binary64 (Fin (9007199254740991 / 9007199254740992))
     (Fin (3602879701896397 / 36028797018963968)) =
   Fin (4953959590107545 / 4503599627370496)"
proof -
  have "binary64 (39631676720860361 / 36028797018963968) =
        Fin (real_of_int 4953959590107545 * 2 powi (0 - 52))"
    by (rule binary64_in_binade) (simp_all add: round_half_even_def power_int_minus)
  then show ?thesis
    by (simp add: js_add_binary64_def power_int_minus)
qed

lemma generateFunctionPoints_tenth_steps:
  "map_option length
     (generateFunctionPoints (Inr :: number \<Rightarrow> unit + number)
        \<lparr>range_min = Fin 0, range_max = Fin 1,
         range_step = Fin (3602879701896397 / 36028797018963968)\<rparr>) = Some 11 \<and>
   \<lfloor>(1 - 0) / (3602879701896397 / 36028797018963968 :: real)\<rfloor> + 1 = 10"
proof -
  have "\<lfloor>(1 - 0) / (3602879701896397 / 36028797018963968 :: real)\<rfloor> = 9"
    by (rule floor_unique) simp_all
  then show ?thesis
    by (simp add: generateFunctionPoints_def generateFunctionPoints_loop.simps
        tenth_step_1 tenth_step_2 tenth_step_3 tenth_step_4
        tenth_step_5 tenth_step_6 tenth_step_7 tenth_step_8
        tenth_step_9 tenth_step_10 tenth_step_11)
qed

text \<open>
  Where the step is too small against \<open>x\<close>, the sum rounds back to \<open>x\<close> and the loop does
  not return: at \<open>2^53\<close> the sum \<open>2^53 + 1\<close> lies halfway between two binary64 numbers
  and is rounded to the even one, \<open>2^53\<close>.
\<close>

lemma binary64_stall:
  "js_add_binary64 (Fin 9007199254740992) (Fin 1) = Fin 9007199254740992"
proof -
  have "binary64 9007199254740993 = Fin (real_of_int 4503599627370496 * 2 powi (53 - 52))"
    by (rule binary64_in_binade) (simp_all add: round_half_even_def)
  then show ?thesis
    by (simp add: js_add_binary64_def)
qed

lemma generateFunctionPoints_stalls:
  "generateFunctionPoints f
     \<lparr>range_min = Fin 9007199254740992, range_max = Fin 9007199254741002,
      range_step = Fin 1\<rparr> = None"
proof (rule generateFunctionPoints_never_returns, rule allI)
  fix n
  have "loop_value (Fin 9007199254740992) (Fin 1) n = Fin 9007199254740992"
    by (induction n) (simp_all add: binary64_stall)
  then show "js_le (loop_value (Fin 9007199254740992) (Fin 1) n) (Fin 9007199254741002)"
    by simp
qed

subsection \<open>\<^verbatim>\<open>dft\<close> of a constant signal\<close>

text \<open>The sum of the \<open>N\<close>-th roots of unity \<open>w^n\<close>, \<open>w = cis (2 pi k / N)\<close>, for \<open>0 < k < N\<close>.\<close>

lemma cis_root_not_one:
  assumes "0 < k" and "k < N"
  shows "cis (2 * pi * real k / real N) \<noteq> 1"
proof
  assume "cis (2 * pi * real k / real N) = 1"
  then have "cos (2 * pi * real k / real N) = 1"
    by (simp add: complex_eq_iff)
  then obtain m :: int where m: "2 * pi * real k / real N = real_of_int m * 2 * pi"
    unfolding cos_one_2pi_int by blast
  from assms have "0 < real N" by simp
  with m have "real k = real_of_int m * real N"
    by (simp add: field_simps)
  then have "int k = m * int N"
    by (metis of_int_mult of_int_of_nat_eq of_int_eq_iff)
  then have mN: "m * int N = int k" by simp
  from assms have N: "0 \<le> int N" by simp
  have "0 < m"
  proof (rule ccontr)
    assume "\<not> 0 < m"
    then have "m \<le> 0" by simp
    then have "m * int N \<le> 0" using N by (rule mult_nonpos_nonneg)
    with mN assms(1) show False by simp
  qed
  moreover have "m < 1"
  proof (rule ccontr)
    assume "\<not> m < 1"
    then have "1 \<le> m" by simp
    then have "1 * int N \<le> m * int N" using N by (rule mult_right_mono)
    with mN assms(2) show False by simp
  qed
  ultimately show False by simp
qed

lemma sum_cis_roots:
  assumes "0 < k" and "k < N"
  shows "(\<Sum>n<N. cis (2 * pi * real k * real n / real N)) = 0"
proof -
  let ?w = "cis (2 * pi * real k / real N)"
  have "(\<Sum>n<N. cis (2 * pi * real k * real n / real N)) = (\<Sum>n<N. ?w ^ n)"
    by (rule sum.cong) (simp_all add: DeMoivre mult_ac)
  also have "\<dots> = (?w ^ N - 1) / (?w - 1)"
    using cis_root_not_one [OF assms] by (rule geometric_sum)
  also have "?w ^ N = cis (2 * pi * real k)"
    using assms by (simp add: DeMoivre)
  also have "cis (2 * pi * real k) = 1"
    by (rule cis_multiple_2pi) simp
  finally show ?thesis by simp
qed

lemma sum_cos_roots:
  assumes "0 < k" and "k < N"
  shows "(\<Sum>n<N. cos (2 * pi * real k * real n / real N)) = 0"
proof -
  have "(\<Sum>n<N. cos (2 * pi * real k * real n / real N)) =
        Re (\<Sum>n<N. cis (2 * pi * real k * real n / real N))"
    by simp
  then show ?thesis by (simp only: sum_cis_roots [OF assms] zero_complex.simps)
qed

lemma sum_sin_roots:
  assumes "0 < k" and "k < N"
  shows "(\<Sum>n<N. sin (2 * pi * real k * real n / real N)) = 0"
proof -
  have "(\<Sum>n<N. sin (2 * pi * real k * real n / real N)) =
        Im (\<Sum>n<N. cis (2 * pi * real k * real n / real N))"
    by simp
  then show ?thesis by (simp only: sum_cis_roots [OF assms] zero_complex.simps)
qed

text \<open>One step and the whole inner loop of \<^verbatim>\<open>dft\<close> on a constant signal of finite value.\<close>

lemma dft_step_constant:
  assumes "n < N"
  shows "dft_step (replicate N (Fin c)) k (Fin a, Fin b) n =
           (Fin (a + c * cos (2 * pi * real k * real n / real N)),
            Fin (b - c * sin (2 * pi * real k * real n / real N)))"
proof -
  from assms have "real N \<noteq> 0" by simp
  then have "js_div (js_mul (js_mul (js_mul (Fin 2) Math_PI) (Fin (real k))) (Fin (real n)))
               (Fin (real N)) = Fin (2 * pi * real k * real n / real N)"
    by (simp add: Math_PI_def)
  with assms show ?thesis
    by (simp add: dft_step_def js_sub_def)
qed

lemma dft_inner_constant:
  assumes "m \<le> N"
  shows "foldl (dft_step (replicate N (Fin c)) k) (Fin 0, Fin 0) [0..<m] =
           (Fin (c * (\<Sum>n<m. cos (2 * pi * real k * real n / real N))),
            Fin (- (c * (\<Sum>n<m. sin (2 * pi * real k * real n / real N)))))"
  using assms
proof (induction m)
  case 0
  show ?case by simp
next
  case (Suc m)
  then have "m \<le> N" and "m < N" by simp_all
  with Suc.IH show ?case
    by (simp add: dft_step_constant algebra_simps)
qed

lemma dft_bin_constant_zero:
  "dft_bin (replicate N (Fin c)) 0 = \<lparr>real_part = Fin (real N * c), imag_part = Fin 0\<rparr>"
  by (simp add: dft_bin_def dft_inner_constant [of N N c 0])

lemma dft_bin_constant_other:
  assumes "0 < k" and "k < N"
  shows "dft_bin (replicate N (Fin c)) k = \<lparr>real_part = Fin 0, imag_part = Fin 0\<rparr>"
  by (simp add: dft_bin_def dft_inner_constant [of N N c k]
      sum_cos_roots [OF assms] sum_sin_roots [OF assms])

text \<open>
  Claim C8. For a constant signal of length \<open>N \<ge> 1\<close> and finite value \<open>c\<close>, \<^verbatim>\<open>dft\<close>
  returns \<open>N\<close> bins; in exact arithmetic bin 0 is \<open>(N c, 0)\<close> and every other bin is
  \<open>(0, 0)\<close>.
\<close>

theorem dft_constant_signal:
  assumes "1 \<le> N"
  shows "dft (replicate N (Fin c)) =
           \<lparr>real_part = Fin (real N * c), imag_part = Fin 0\<rparr> #
           replicate (N - 1) \<lparr>real_part = Fin 0, imag_part = Fin 0\<rparr>"
proof -
  have len: "length (dft (replicate N (Fin c))) = N"
    by (simp add: dft_def)
  show ?thesis
  proof (rule nth_equalityI)
    show "length (dft (replicate N (Fin c))) =
          length (\<lparr>real_part = Fin (real N * c), imag_part = Fin 0\<rparr> #
                  replicate (N - 1) \<lparr>real_part = Fin 0, imag_part = Fin 0\<rparr>)"
      using assms len by simp
  next
    fix k
    assume "k < length (dft (replicate N (Fin c)))"
    with len have k: "k < N" by simp
    then have bin: "dft (replicate N (Fin c)) ! k = dft_bin (replicate N (Fin c)) k"
      by (simp add: dft_def)
    show "dft (replicate N (Fin c)) ! k =
          (\<lparr>real_part = Fin (real N * c), imag_part = Fin 0\<rparr> #
           replicate (N - 1) \<lparr>real_part = Fin 0, imag_part = Fin 0\<rparr>) ! k"
    proof (cases k)
      case 0
      then show ?thesis unfolding bin by (simp add: dft_bin_constant_zero)
    next
      case (Suc j)
      with k have "0 < k" and "j < N - 1" by simp_all
      with k Suc show ?thesis unfolding bin by (simp add: dft_bin_constant_other)
    qed
  qed
qed

theorem dft_constant_signal_witness:
  "(1 :: nat) \<le> 2 \<and>
   dft [Fin 3, Fin 3] =
     [\<lparr>real_part = Fin 6, imag_part = Fin 0\<rparr>, \<lparr>real_part = Fin 0, imag_part = Fin 0\<rparr>]"
  using dft_constant_signal [of 2 3] by (simp add: numeral_2_eq_2)

subsection \<open>The two definitions of \<^verbatim>\<open>generateSignalWithHarmonics\<close>\<close>

lemma harmonics_loop_math_le_data:
  assumes "harmonics_loop_math bf hs a t h v = Some r"
  shows "harmonics_loop_data bf hs a t h v = Some r"
  using assms
proof (induct rule: harmonics_loop_math.raw_induct [rotated 1, consumes 1, case_names step])
  case (step loop bf hs a t h v r)
  show ?case
  proof (cases "js_le h hs")
    case True
    with step(2) have "loop bf hs a t (js_add h (Fin 1))
        (js_add v (js_mul (js_div a h)
           (Math_sin (js_mul (js_mul (js_mul (Fin 2) Math_PI) (js_mul bf h)) t)))) = Some r"
      by (simp add: Let_def)
    then have "harmonics_loop_data bf hs a t (js_add h (Fin 1))
        (js_add v (js_mul (js_div a h)
           (Math_sin (js_mul (js_mul (js_mul (Fin 2) Math_PI) (js_mul bf h)) t)))) = Some r"
      by (rule step(1))
    with True show ?thesis
      by (subst harmonics_loop_data.simps) (simp add: Let_def)
  next
    case False
    with step(2) have "r = v" by simp
    with False show ?thesis
      by (subst harmonics_loop_data.simps) simp
  qed
qed

lemma harmonics_loop_data_le_math:
  assumes "harmonics_loop_data bf hs a t h v = Some r"
  shows "harmonics_loop_math bf hs a t h v = Some r"
  using assms
proof (induct rule: harmonics_loop_data.raw_induct [rotated 1, consumes 1, case_names step])
  case (step loop bf hs a t h v r)
  show ?case
  proof (cases "js_le h hs")
    case True
    with step(2) have "loop bf hs a t (js_add h (Fin 1))
        (js_add v (js_mul (js_div a h)
           (Math_sin (js_mul (js_mul (js_mul (Fin 2) Math_PI) (js_mul bf h)) t)))) = Some r"
      by (simp add: Let_def)
    then have "harmonics_loop_math bf hs a t (js_add h (Fin 1))
        (js_add v (js_mul (js_div a h)
           (Math_sin (js_mul (js_mul (js_mul (Fin 2) Math_PI) (js_mul bf h)) t)))) = Some r"
      by (rule step(1))
    with True show ?thesis
      by (subst harmonics_loop_math.simps) (simp add: Let_def)
  next
    case False
    with step(2) have "r = v" by simp
    with False show ?thesis
      by (subst harmonics_loop_math.simps) simp
  qed
qed

lemma harmonics_loop_math_eq_data:
  "harmonics_loop_math bf hs a t h v = harmonics_loop_data bf hs a t h v"
proof (cases "harmonics_loop_math bf hs a t h v")
  case (Some r)
  from harmonics_loop_math_le_data [OF this] Some show ?thesis by simp
next
  case math_none: None
  show ?thesis
  proof (cases "harmonics_loop_data bf hs a t h v")
    case None
    with math_none show ?thesis by simp
  next
    case (Some r)
    from harmonics_loop_data_le_math [OF this] math_none show ?thesis by simp
  qed
qed

lemma samples_loop_math_eq_data:
  "samples_loop_math bf hs a s idxs sig = samples_loop_data bf hs a s idxs sig"
proof (induction idxs arbitrary: sig)
  case Nil
  show ?case by simp
next
  case (Cons i idxs)
  show ?case
    by (cases "harmonics_loop_data bf hs a (js_div (Fin (real i)) s) (Fin 1) (Fin 0)")
      (simp_all add: harmonics_loop_math_eq_data Cons.IH)
qed

text \<open>
  Claim C9. The definition of \<^verbatim>\<open>generateSignalWithHarmonics\<close> in the math utilities and
  the one in the data utilities are extensionally equal: for all arguments (given or
  left to their defaults) both throw, both do not return, or both return the same array.
\<close>

theorem generateSignalWithHarmonics_definitions_agree:
  "generateSignalWithHarmonics_math baseFrequency harmonics amplitude samples =
   generateSignalWithHarmonics_data baseFrequency harmonics amplitude samples"
  unfolding generateSignalWithHarmonics_math_def generateSignalWithHarmonics_data_def
    samples_loop_math_eq_data
  by (rule refl)

end
